theory Spec2Isabelle
  imports Complex_Main
begin

section \<open>Data model\<close>

text \<open>
  The video preloader (\<^verbatim>\<open>video-preloader.ts\<close>) and the performance monitor
  (\<^verbatim>\<open>performance-monitor.ts\<close>) compute with JavaScript numbers. They are modelled
  as real numbers: finite values with exact arithmetic. The counter
  \<^verbatim>\<open>currentPreloads\<close> only ever changes by \<^verbatim>\<open>++\<close> and \<^verbatim>\<open>--\<close> from 0 and is an
  integer. The values a JavaScript number has beyond the finite ones, NaN and the two
  infinities, are modelled where \<^verbatim>\<open>configure\<close> clamps what its caller supplies
  (\<open>js_number\<close> below).
\<close>

type_synonym file_handle = string

text \<open>
  Modelled from the spec: the type declarations \<^verbatim>\<open>MediaFile\<close>, \<^verbatim>\<open>TimelineTrack\<close> and
  \<^verbatim>\<open>MediaElement\<close> (\<^verbatim>\<open>@/types/media\<close>, \<^verbatim>\<open>@/types/timeline\<close>) are not among the
  sources. The records below hold exactly the fields the preloader reads: a media file
  has an id, a type tag and an optional byte source; a track has a type tag, a muted
  flag and its elements; an element has a type tag, a hidden flag, a start time, a
  duration, two trim offsets and the id of the media file it references.
\<close>

record media_file =
  mf_id :: string
  mf_type :: string
  mf_file :: "file_handle option"

record element =
  el_type :: string
  hidden :: bool
  startTime :: real
  duration :: real
  trimStart :: real
  trimEnd :: real
  mediaId :: string

record track =
  tr_type :: string
  muted :: bool
  elements :: "element list"

text \<open>The interface \<^verbatim>\<open>PreloadJob\<close>.\<close>

record preload_job =
  job_mediaId :: string
  job_file :: file_handle
  targetTime :: real
  priority :: real

text \<open>
  The private fields of class \<^verbatim>\<open>VideoPreloader\<close>, followed by the part of the
  browser the class talks to: the callbacks registered with \<^verbatim>\<open>requestIdleCallback\<close>
  that have not run yet, the jobs whose \<^verbatim>\<open>videoCache.getFrameAt\<close> call is awaited, the
  log of all \<^verbatim>\<open>getFrameAt\<close> calls made so far, and the log of \<^verbatim>\<open>console.warn\<close>.
\<close>

record video_preloader =
  preloadQueue :: "preload_job list"
  isPreloading :: bool
  preloadRadius :: real
  maxConcurrentPreloads :: real
  currentPreloads :: int
  idleCallbacks :: "preload_job list"
  inFlight :: "preload_job list"
  decodeCalls :: "preload_job list"
  warnings :: "(preload_job \<times> string) list"

definition initial :: video_preloader where
  "initial = \<lparr>preloadQueue = [], isPreloading = False, preloadRadius = 3,
     maxConcurrentPreloads = 2, currentPreloads = 0, idleCallbacks = [], inFlight = [],
     decodeCalls = [], warnings = []\<rparr>"

text \<open>The argument object of \<^verbatim>\<open>schedulePreload\<close>; \<^verbatim>\<open>playbackSpeed\<close> may be omitted.\<close>

record schedule_args =
  currentTime :: real
  tracks :: "track list"
  mediaFiles :: "media_file list"
  playbackSpeed :: "real option"

section \<open>The preload plan\<close>

definition elementEnd :: "element \<Rightarrow> real" where
  "elementEnd e = startTime e + duration e - trimStart e - trimEnd e"

text \<open>\<^verbatim>\<open>mediaFiles.find((m) => m.id === id)\<close>: the first file with that id.\<close>

definition find_media :: "media_file list \<Rightarrow> string \<Rightarrow> media_file option" where
  "find_media mfs i = find (\<lambda>m. mf_id m = i) mfs"

text \<open>
  \<^verbatim>\<open>findRelevantVideoElements\<close>: the inner loop over the elements of one track, and the
  outer loop over the tracks.
\<close>

fun relevant_in_track ::
  "real \<Rightarrow> real \<Rightarrow> media_file list \<Rightarrow> element list \<Rightarrow> element list" where
  "relevant_in_track searchStart searchEnd mfs [] = []"
| "relevant_in_track searchStart searchEnd mfs (e # es) =
     (if el_type e \<noteq> ''media'' \<or> hidden e
      then relevant_in_track searchStart searchEnd mfs es
      else if startTime e < searchEnd \<and> elementEnd e > searchStart
      then (case find_media mfs (mediaId e) of
              None \<Rightarrow> relevant_in_track searchStart searchEnd mfs es
            | Some m \<Rightarrow>
                if mf_type m = ''video''
                then e # relevant_in_track searchStart searchEnd mfs es
                else relevant_in_track searchStart searchEnd mfs es)
      else relevant_in_track searchStart searchEnd mfs es)"

fun relevant_in_tracks ::
  "real \<Rightarrow> real \<Rightarrow> media_file list \<Rightarrow> track list \<Rightarrow> element list" where
  "relevant_in_tracks searchStart searchEnd mfs [] = []"
| "relevant_in_tracks searchStart searchEnd mfs (t # ts) =
     (if muted t \<or> tr_type t \<noteq> ''media''
      then relevant_in_tracks searchStart searchEnd mfs ts
      else relevant_in_track searchStart searchEnd mfs (elements t)
           @ relevant_in_tracks searchStart searchEnd mfs ts)"

definition findRelevantVideoElements ::
  "real \<Rightarrow> track list \<Rightarrow> media_file list \<Rightarrow> real \<Rightarrow> element list" where
  "findRelevantVideoElements ct trs mfs lookAheadTime =
     (let searchStart = ct - 1;
          searchEnd = ct + lookAheadTime
      in relevant_in_tracks searchStart searchEnd mfs trs)"

text \<open>
  The sampling loop \<^verbatim>\<open>for (let time = preloadStart; time < preloadEnd; time +=
  frameInterval)\<close>: the values \<^verbatim>\<open>time\<close> takes, in order. The model steps by exactly
  1/24. The code adds the double nearest to 1/24 and rounds every sum, so its sample
  times are the model's up to rounding, and where the sampled range is a whole number
  of frames long the code can take one more sample than the model, just below the end
  of the range. On the concrete timelines below for which a number of jobs is stated,
  the code takes as many samples as the model.
\<close>

definition frameInterval :: real where
  "frameInterval = 1 / 24"

function sample_times :: "real \<Rightarrow> real \<Rightarrow> real list" where
  "sample_times time preloadEnd =
     (if time < preloadEnd then time # sample_times (time + frameInterval) preloadEnd
      else [])"
  by pat_completeness auto
termination
proof (relation "measure (\<lambda>(time, preloadEnd). nat \<lceil>(preloadEnd - time) * 24\<rceil>)")
  show "wf (measure (\<lambda>(time, preloadEnd). nat \<lceil>(preloadEnd - time) * 24\<rceil>))"
    by simp
next
  fix time preloadEnd :: real
  assume lt: "time < preloadEnd"
  have eq: "(preloadEnd - (time + frameInterval)) * 24 = (preloadEnd - time) * 24 - 1"
    by (simp add: frameInterval_def algebra_simps)
  have pos: "0 < \<lceil>(preloadEnd - time) * 24\<rceil>"
    using lt by (simp add: ceiling_less_iff)
  have "\<lceil>(preloadEnd - (time + frameInterval)) * 24\<rceil> = \<lceil>(preloadEnd - time) * 24\<rceil> - 1"
    unfolding eq by simp
  with pos
  show "((time + frameInterval, preloadEnd), (time, preloadEnd))
          \<in> measure (\<lambda>(time, preloadEnd). nat \<lceil>(preloadEnd - time) * 24\<rceil>)"
    by simp
qed

declare sample_times.simps [simp del]

text \<open>The body of the sampling loop: the job pushed for the sample \<^verbatim>\<open>time\<close>.\<close>

definition job_at :: "media_file \<Rightarrow> file_handle \<Rightarrow> element \<Rightarrow> real \<Rightarrow> real \<Rightarrow> preload_job" where
  "job_at mediaItem f e ct time =
     (let localTime = time - startTime e + trimStart e;
          distanceFromCurrent = \<bar>time - ct\<bar>;
          prio = max 0 (100 - distanceFromCurrent * 10)
      in \<lparr>job_mediaId = mf_id mediaItem, job_file = f, targetTime = localTime,
          priority = prio\<rparr>)"

definition preloadStart :: "element \<Rightarrow> real \<Rightarrow> real \<Rightarrow> real" where
  "preloadStart e ct r = max (startTime e) (ct - r)"

definition preloadEnd :: "element \<Rightarrow> real \<Rightarrow> real \<Rightarrow> real" where
  "preloadEnd e ct r = min (elementEnd e) (ct + r)"

definition element_samples :: "element \<Rightarrow> real \<Rightarrow> real \<Rightarrow> real list" where
  "element_samples e ct r = sample_times (preloadStart e ct r) (preloadEnd e ct r)"

text \<open>The loop \<^verbatim>\<open>for (const element of videoElements)\<close> of \<^verbatim>\<open>schedulePreload\<close>.\<close>

fun create_jobs :: "media_file list \<Rightarrow> real \<Rightarrow> real \<Rightarrow> element list \<Rightarrow> preload_job list" where
  "create_jobs mfs ct r [] = []"
| "create_jobs mfs ct r (e # es) =
     (case find_media mfs (mediaId e) of
        None \<Rightarrow> create_jobs mfs ct r es
      | Some m \<Rightarrow>
          if mf_type m \<noteq> ''video'' then create_jobs mfs ct r es
          else (case mf_file m of
                  None \<Rightarrow> create_jobs mfs ct r es
                | Some f \<Rightarrow> map (job_at m f e ct) (element_samples e ct r)
                            @ create_jobs mfs ct r es))"

definition adjustedRadius :: "video_preloader \<Rightarrow> real option \<Rightarrow> real" where
  "adjustedRadius s speed =
     preloadRadius s / max (1 / 2) (case speed of None \<Rightarrow> 1 | Some v \<Rightarrow> v)"

text \<open>
  The queue \<^verbatim>\<open>schedulePreload\<close> has built when it calls \<^verbatim>\<open>processPreloadQueue\<close>: the old
  queue is replaced by the empty one, the jobs are pushed, and the queue is sorted with
  the comparator \<^verbatim>\<open>b.priority - a.priority\<close> (a stable sort, higher priority first).
\<close>

definition unsorted_plan :: "video_preloader \<Rightarrow> schedule_args \<Rightarrow> preload_job list" where
  "unsorted_plan s a =
     (let cleared = s\<lparr>preloadQueue := []\<rparr>;
          r = adjustedRadius cleared (playbackSpeed a);
          videoElements = findRelevantVideoElements (currentTime a) (tracks a) (mediaFiles a) r
      in preloadQueue cleared @ create_jobs (mediaFiles a) (currentTime a) r videoElements)"

definition preload_plan :: "video_preloader \<Rightarrow> schedule_args \<Rightarrow> preload_job list" where
  "preload_plan s a = sort_key (\<lambda>j. - priority j) (unsorted_plan s a)"

section \<open>Draining the queue\<close>

text \<open>
  The \<^verbatim>\<open>while\<close> loop of \<^verbatim>\<open>processPreloadQueue\<close>: shift a job, count it as active and
  register its callback with \<^verbatim>\<open>requestIdleCallback\<close>.
\<close>

function start_loop :: "video_preloader \<Rightarrow> video_preloader" where
  "start_loop s =
     (case preloadQueue s of
        [] \<Rightarrow> s
      | job # rest \<Rightarrow>
          if of_int (currentPreloads s) < maxConcurrentPreloads s
          then start_loop (s\<lparr>preloadQueue := rest,
                 currentPreloads := currentPreloads s + 1,
                 idleCallbacks := idleCallbacks s @ [job]\<rparr>)
          else s)"
  by pat_completeness auto
termination
  by (relation "measure (\<lambda>s. length (preloadQueue s))") auto

declare start_loop.simps [simp del]

definition processPreloadQueue :: "video_preloader \<Rightarrow> video_preloader" where
  "processPreloadQueue s =
     (if isPreloading s \<or> preloadQueue s = [] then s
      else let s1 = start_loop (s\<lparr>isPreloading := True\<rparr>)
           in if currentPreloads s1 = 0 then s1\<lparr>isPreloading := False\<rparr> else s1)"

definition schedulePreload :: "video_preloader \<Rightarrow> schedule_args \<Rightarrow> video_preloader" where
  "schedulePreload s a = processPreloadQueue (s\<lparr>preloadQueue := preload_plan s a\<rparr>)"

definition clearQueue :: "video_preloader \<Rightarrow> video_preloader" where
  "clearQueue s = s\<lparr>preloadQueue := []\<rparr>"

text \<open>\<^verbatim>\<open>getStats\<close>: queueLength, activePreloads, isPreloading.\<close>

definition getStats :: "video_preloader \<Rightarrow> nat \<times> int \<times> bool" where
  "getStats s = (length (preloadQueue s), currentPreloads s, isPreloading s)"

text \<open>\<^verbatim>\<open>configure\<close>; an omitted (undefined) field is \<open>None\<close>.\<close>

definition configure :: "video_preloader \<Rightarrow> real option \<Rightarrow> real option \<Rightarrow> video_preloader" where
  "configure s radius conc =
     (let s1 = (case radius of
                  None \<Rightarrow> s
                | Some r \<Rightarrow> s\<lparr>preloadRadius := max 1 (min 10 r)\<rparr>)
      in (case conc of
            None \<Rightarrow> s1
          | Some c \<Rightarrow> s1\<lparr>maxConcurrentPreloads := max 1 (min 4 c)\<rparr>))"

text \<open>
  The values \<^verbatim>\<open>configure\<close> can be called with, and the expression
  \<^verbatim>\<open>Math.max(lo, Math.min(hi, x))\<close> it stores for a supplied \<open>x\<close>: \<^verbatim>\<open>Math.min\<close> and
  \<^verbatim>\<open>Math.max\<close> are NaN as soon as one argument is NaN, and otherwise the smaller and
  the larger argument. \<open>configure\<close> above is this expression on the finite values.
\<close>

datatype js_number = NaN | NegInfinity | Finite real | PosInfinity

fun Math_min :: "js_number \<Rightarrow> js_number \<Rightarrow> js_number" where
  "Math_min NaN y = NaN"
| "Math_min x NaN = NaN"
| "Math_min NegInfinity y = NegInfinity"
| "Math_min x NegInfinity = NegInfinity"
| "Math_min PosInfinity y = y"
| "Math_min x PosInfinity = x"
| "Math_min (Finite a) (Finite b) = Finite (min a b)"

fun Math_max :: "js_number \<Rightarrow> js_number \<Rightarrow> js_number" where
  "Math_max NaN y = NaN"
| "Math_max x NaN = NaN"
| "Math_max PosInfinity y = PosInfinity"
| "Math_max x PosInfinity = PosInfinity"
| "Math_max NegInfinity y = y"
| "Math_max x NegInfinity = x"
| "Math_max (Finite a) (Finite b) = Finite (max a b)"

definition clamped :: "real \<Rightarrow> real \<Rightarrow> js_number \<Rightarrow> js_number" where
  "clamped lo hi x = Math_max (Finite lo) (Math_min (Finite hi) x)"

section \<open>Background jobs and events\<close>

text \<open>
  How the awaited call \<^verbatim>\<open>videoCache.getFrameAt\<close> of a job ends: the promise resolves, or
  the call throws or rejects with an error.
\<close>

datatype outcome = Resolved | Rejected string

definition remove_at :: "nat \<Rightarrow> 'a list \<Rightarrow> 'a list" where
  "remove_at i xs = take i xs @ drop (Suc i) xs"

text \<open>
  The browser runs a registered idle callback: the callback enters its \<^verbatim>\<open>try\<close> block
  and calls \<^verbatim>\<open>videoCache.getFrameAt\<close>, which is then awaited.
\<close>

definition idleCallbackRuns :: "nat \<Rightarrow> video_preloader \<Rightarrow> video_preloader" where
  "idleCallbackRuns i s =
     (let job = idleCallbacks s ! i
      in s\<lparr>idleCallbacks := remove_at i (idleCallbacks s),
           inFlight := inFlight s @ [job],
           decodeCalls := decodeCalls s @ [job]\<rparr>)"

text \<open>The \<^verbatim>\<open>finally\<close> block of the callback.\<close>

definition finallyBlock :: "video_preloader \<Rightarrow> video_preloader" where
  "finallyBlock s =
     (let s1 = s\<lparr>currentPreloads := currentPreloads s - 1\<rparr>
      in if preloadQueue s1 \<noteq> [] then processPreloadQueue s1
         else if currentPreloads s1 = 0 then s1\<lparr>isPreloading := False\<rparr>
         else s1)"

text \<open>
  The rest of the callback once the awaited call has ended: the \<^verbatim>\<open>catch\<close> clause logs a
  warning for a failed call, then the \<^verbatim>\<open>finally\<close> block runs. The result is \<open>Inl\<close> when an
  exception leaves the callback and \<open>Inr\<close> with the new state otherwise.
\<close>

definition jobSettles ::
  "preload_job \<Rightarrow> outcome \<Rightarrow> video_preloader \<Rightarrow> string + video_preloader" where
  "jobSettles job r s =
     (let s1 = (case r of
                  Resolved \<Rightarrow> s
                | Rejected err \<Rightarrow> s\<lparr>warnings := warnings s @ [(job, err)]\<rparr>)
      in Inr (finallyBlock s1))"

text \<open>
  The events of the preloader: the three public methods, the browser running the
  \<open>i\<close>-th pending idle callback, and the \<open>i\<close>-th awaited call ending.
\<close>

datatype event =
    SchedulePreload schedule_args
  | Configure "real option" "real option"
  | ClearQueue
  | IdleCallback nat
  | Settle nat outcome

fun step :: "video_preloader \<Rightarrow> event \<Rightarrow> video_preloader option" where
  "step s (SchedulePreload a) = Some (schedulePreload s a)"
| "step s (Configure radius conc) = Some (configure s radius conc)"
| "step s ClearQueue = Some (clearQueue s)"
| "step s (IdleCallback i) =
     (if i < length (idleCallbacks s) then Some (idleCallbackRuns i s) else None)"
| "step s (Settle i r) =
     (if i < length (inFlight s)
      then (case jobSettles (inFlight s ! i) r (s\<lparr>inFlight := remove_at i (inFlight s)\<rparr>) of
              Inl err \<Rightarrow> None
            | Inr s' \<Rightarrow> Some s')
      else None)"

fun run :: "video_preloader \<Rightarrow> event list \<Rightarrow> video_preloader option" where
  "run s [] = Some s"
| "run s (ev # evs) = (case step s ev of None \<Rightarrow> None | Some s' \<Rightarrow> run s' evs)"

text \<open>
  A \<^verbatim>\<open>configure\<close> call keeps the concurrency bound when it does not supply
  \<^verbatim>\<open>maxConcurrentPreloads\<close>, or supplies an integer whose clamped value is not below the
  number of jobs active at that moment.
\<close>

fun keeps_bound :: "video_preloader \<Rightarrow> event \<Rightarrow> bool" where
  "keeps_bound s (Configure radius (Some c)) =
     (c \<in> \<int> \<and> of_int (currentPreloads s) \<le> max 1 (min 4 c))"
| "keeps_bound s ev = True"

fun admissible :: "video_preloader \<Rightarrow> event list \<Rightarrow> bool" where
  "admissible s [] = True"
| "admissible s (ev # evs) =
     (keeps_bound s ev \<and> (case step s ev of None \<Rightarrow> False | Some s' \<Rightarrow> admissible s' evs))"

section \<open>Reachable states and the concurrency bound\<close>

text \<open>
  Two invariants of the drain loop. The first is the bound of the count by the
  configured limit, for an integral limit; the second is the bound by the largest
  limit \<^verbatim>\<open>configure\<close> can store.
\<close>

definition bound_inv :: "video_preloader \<Rightarrow> bool" where
  "bound_inv s =
     (maxConcurrentPreloads s \<in> \<int> \<and> of_int (currentPreloads s) \<le> maxConcurrentPreloads s)"

definition cap_inv :: "video_preloader \<Rightarrow> bool" where
  "cap_inv s =
     (1 \<le> maxConcurrentPreloads s \<and> maxConcurrentPreloads s \<le> 4 \<and> currentPreloads s \<le> 4)"

section \<open>A small timeline\<close>

text \<open>
  One video file, and a timeline of one unmuted media track with one visible media
  element that starts at \<open>start\<close> and lasts \<open>d\<close> seconds, untrimmed; the playhead is at
  \<open>ct\<close> and the playback speed is omitted.
\<close>

definition video_v :: media_file where
  "video_v = \<lparr>mf_id = ''v'', mf_type = ''video'', mf_file = Some ''v.mp4''\<rparr>"

definition clip :: "real \<Rightarrow> real \<Rightarrow> element" where
  "clip start d = \<lparr>el_type = ''media'', hidden = False, startTime = start, duration = d,
     trimStart = 0, trimEnd = 0, mediaId = ''v''\<rparr>"

definition one_track :: "real \<Rightarrow> real \<Rightarrow> track" where
  "one_track start d = \<lparr>tr_type = ''media'', muted = False, elements = [clip start d]\<rparr>"

definition one_clip :: "real \<Rightarrow> real \<Rightarrow> real \<Rightarrow> schedule_args" where
  "one_clip ct start d = \<lparr>currentTime = ct, tracks = [one_track start d],
     mediaFiles = [video_v], playbackSpeed = None\<rparr>"

definition job_v :: "real \<Rightarrow> real \<Rightarrow> preload_job" where
  "job_v t p = \<lparr>job_mediaId = ''v'', job_file = ''v.mp4'', targetTime = t, priority = p\<rparr>"

section \<open>Bookkeeping of jobs\<close>

text \<open>
  The jobs that have not reached the decoder yet, in order: those whose callback is
  registered, then those still queued. The active count exceeds the number of
  registered callbacks by \<open>uncounted\<close>.
\<close>

definition pending :: "video_preloader \<Rightarrow> preload_job list" where
  "pending s = idleCallbacks s @ preloadQueue s"

definition uncounted :: "video_preloader \<Rightarrow> int" where
  "uncounted s = currentPreloads s - int (length (idleCallbacks s))"

text \<open>
  The active count is the number of jobs whose callback is registered or whose decode
  call is awaited, and \<^verbatim>\<open>isPreloading\<close> is set while the count is not 0.
\<close>

definition job_inv :: "video_preloader \<Rightarrow> bool" where
  "job_inv s =
     (currentPreloads s = int (length (idleCallbacks s)) + int (length (inFlight s))
      \<and> (isPreloading s \<or> currentPreloads s = 0))"

section \<open>The performance monitor\<close>

text \<open>
  The interfaces \<^verbatim>\<open>PerformanceMetrics\<close> and \<^verbatim>\<open>PerformanceThresholds\<close> and the threshold
  table of class \<^verbatim>\<open>PerformanceMonitor\<close>, which no method writes.
\<close>

record performance_metrics =
  frameRate :: real
  memoryUsage :: real
  cacheHitRate :: real
  videoDecodingTime :: real
  renderTime :: real
  lastUpdate :: real

record performance_thresholds =
  minFrameRate :: real
  maxMemoryUsage :: real
  minCacheHitRate :: real
  maxVideoDecodingTime :: real
  maxRenderTime :: real

definition thresholds :: performance_thresholds where
  "thresholds = \<lparr>minFrameRate = 24, maxMemoryUsage = 1024 * 1024 * 1024,
     minCacheHitRate = 8 / 10, maxVideoDecodingTime = 50, maxRenderTime = 16\<rparr>"

text \<open>\<^verbatim>\<open>Math.round\<close>: the nearest integer, a half rounded up.\<close>

definition math_round :: "real \<Rightarrow> int" where
  "math_round x = \<lfloor>x + 1 / 2\<rfloor>"

text \<open>
  An issue is a template string with numbers filled in; the model keeps the template
  (the constructor) and the numbers: the frame rate and its target, the memory in MB,
  the hit rate in percent, the decoding time and the render time in ms.
\<close>

datatype issue =
    LowFrameRate real real
  | HighMemoryUsage int
  | LowCacheHitRate int
  | SlowVideoDecoding int
  | SlowRendering int

record performance_status =
  isGood :: bool
  issues :: "issue list"
  suggestions :: "string list"

text \<open>\<^verbatim>\<open>issues.push(...)\<close> followed by \<^verbatim>\<open>suggestions.push(...)\<close>.\<close>

definition report ::
  "issue \<Rightarrow> string \<Rightarrow> issue list \<times> string list \<Rightarrow> issue list \<times> string list" where
  "report i g st = (fst st @ [i], snd st @ [g])"

definition getPerformanceStatus :: "performance_metrics \<Rightarrow> performance_status" where
  "getPerformanceStatus m =
     (let st0 = ([], []);
          st1 = (if frameRate m < minFrameRate thresholds
                 then report (LowFrameRate (frameRate m) (minFrameRate thresholds))
                        ''Consider reducing video quality or closing other browser tabs'' st0
                 else st0);
          st2 = (if memoryUsage m > maxMemoryUsage thresholds
                 then report (HighMemoryUsage (math_round (memoryUsage m / (1024 * 1024))))
                        ''Try clearing video cache or reducing timeline complexity'' st1
                 else st1);
          st3 = (if cacheHitRate m < minCacheHitRate thresholds
                 then report (LowCacheHitRate (math_round (cacheHitRate m * 100)))
                        ''Allow more time for video preloading or reduce playback speed'' st2
                 else st2);
          st4 = (if videoDecodingTime m > maxVideoDecodingTime thresholds
                 then report (SlowVideoDecoding (math_round (videoDecodingTime m)))
                        ''Try using lower resolution videos or converting to a more efficient codec'' st3
                 else st3);
          st5 = (if renderTime m > maxRenderTime thresholds
                 then report (SlowRendering (math_round (renderTime m)))
                        ''Reduce the number of timeline elements or disable preview effects'' st4
                 else st4)
      in \<lparr>isGood = (length (fst st5) = 0), issues = fst st5, suggestions = snd st5\<rparr>)"

definition getPerformanceGrade :: "performance_metrics \<Rightarrow> string" where
  "getPerformanceGrade m =
     (let status = getPerformanceStatus m;
          issueCount = length (issues status)
      in if issueCount = 0 then ''A''
         else if issueCount = 1 then ''B''
         else if issueCount = 2 then ''C''
         else if issueCount = 3 then ''D''
         else ''F'')"

text \<open>
  The threshold table as the specification words it, to compare the code with: frame
  rate below 24 fps, memory above \<open>2 ^ 30\<close> bytes, hit rate below 0.8, decoding above
  50 ms, rendering above 16 ms. \<open>violation_count\<close> is the number of violated thresholds,
  and \<open>grade_rank\<close> orders the grades from the best (A) to the worst (F).
\<close>

definition violated_thresholds :: "performance_metrics \<Rightarrow> bool list" where
  "violated_thresholds m =
     [frameRate m < 24, memoryUsage m > 2 ^ 30, cacheHitRate m < 8 / 10,
      videoDecodingTime m > 50, renderTime m > 16]"

definition violation_count :: "performance_metrics \<Rightarrow> nat" where
  "violation_count m = length (filter (\<lambda>b. b) (violated_thresholds m))"

definition grade_rank :: "string \<Rightarrow> nat" where
  "grade_rank g =
     (if g = ''A'' then 0 else if g = ''B'' then 1 else if g = ''C'' then 2
      else if g = ''D'' then 3 else 4)"

definition metrics :: "real \<Rightarrow> real \<Rightarrow> real \<Rightarrow> real \<Rightarrow> real \<Rightarrow> performance_metrics" where
  "metrics fps mem hit dec ren = \<lparr>frameRate = fps, memoryUsage = mem, cacheHitRate = hit,
     videoDecodingTime = dec, renderTime = ren, lastUpdate = 0\<rparr>"

section \<open>Which elements are sampled\<close>

text \<open>
  The tests of the two loops of \<^verbatim>\<open>findRelevantVideoElements\<close> and of the job loop of
  \<^verbatim>\<open>schedulePreload\<close>, as predicates: the elements of the tracks that are not skipped,
  the test an element passes to be relevant for the search window from \<open>lo\<close> to \<open>hi\<close>,
  and the media file and byte source a relevant element gets its jobs from.
\<close>

definition candidates :: "track list \<Rightarrow> element list" where
  "candidates trs = concat (map elements (filter (\<lambda>t. \<not> (muted t \<or> tr_type t \<noteq> ''media'')) trs))"

definition relevant_elem :: "real \<Rightarrow> real \<Rightarrow> media_file list \<Rightarrow> element \<Rightarrow> bool" where
  "relevant_elem lo hi mfs e =
     (\<not> (el_type e \<noteq> ''media'' \<or> hidden e) \<and> startTime e < hi \<and> elementEnd e > lo
      \<and> (case find_media mfs (mediaId e) of None \<Rightarrow> False | Some m \<Rightarrow> mf_type m = ''video''))"

definition job_source :: "media_file list \<Rightarrow> element \<Rightarrow> (media_file \<times> file_handle) option" where
  "job_source mfs e =
     (case find_media mfs (mediaId e) of
        None \<Rightarrow> None
      | Some m \<Rightarrow>
          if mf_type m \<noteq> ''video'' then None
          else (case mf_file m of None \<Rightarrow> None | Some f \<Rightarrow> Some (m, f)))"

text \<open>
  What C4 says of a job \<open>j\<close> of the plan for the arguments \<open>a\<close> and the radius \<open>r\<close>, with the
  interval the sample times lie in as a parameter: the job comes from an element of
  media type, not hidden, on an unmuted media track, that references a video file with
  a byte source and whose active interval meets the search window from
  \<open>currentTime - 1\<close> to \<open>currentTime + r\<close>; its sample time \<open>t\<close> lies in the element's
  active window and in \<open>window\<close>, a whole number of steps of 1/24 s after the start of
  the sampled range; its target time is \<open>t - startTime + trimStart\<close>.
\<close>

definition job_sampled :: "schedule_args \<Rightarrow> real \<Rightarrow> real set \<Rightarrow> preload_job \<Rightarrow> bool" where
  "job_sampled a r window j =
     (\<exists>tr \<in> set (tracks a). \<exists>e \<in> set (elements tr). \<exists>m f t.
        tr_type tr = ''media'' \<and> \<not> muted tr \<and> el_type e = ''media'' \<and> \<not> hidden e
        \<and> find_media (mediaFiles a) (mediaId e) = Some m \<and> mf_type m = ''video''
        \<and> mf_file m = Some f
        \<and> startTime e < currentTime a + r \<and> currentTime a - 1 < elementEnd e
        \<and> startTime e \<le> t \<and> t < elementEnd e \<and> t \<in> window
        \<and> (\<exists>k::nat. t = max (startTime e) (currentTime a - r) + real k / 24)
        \<and> job_mediaId j = mf_id m \<and> job_file j = f
        \<and> targetTime j = t - startTime e + trimStart e)"

text \<open>
  The number of jobs one element of an unskipped track contributes to a plan with the
  radius \<open>r\<close>: the number of its sample times when it passes the tests, and 0 otherwise.
\<close>

definition job_count :: "media_file list \<Rightarrow> real \<Rightarrow> real \<Rightarrow> element \<Rightarrow> nat" where
  "job_count mfs ct r e =
     (if relevant_elem (ct - 1) (ct + r) mfs e \<and> job_source mfs e \<noteq> None
      then length (element_samples e ct r) else 0)"

text \<open>
  The iterations of the two nested loops of \<^verbatim>\<open>schedulePreload\<close> that push a job, in the
  order they run: the media file, its byte source, the element and the sample time of
  each. \<open>sampled_iterations\<close> follows the loop over \<^verbatim>\<open>videoElements\<close> and its tests as
  \<open>create_jobs\<close> does; \<open>iteration_job\<close> is the job an iteration pushes.
\<close>

type_synonym iteration = "media_file \<times> file_handle \<times> element \<times> real"

fun sampled_iterations :: "media_file list \<Rightarrow> real \<Rightarrow> real \<Rightarrow> element list \<Rightarrow> iteration list" where
  "sampled_iterations mfs ct r [] = []"
| "sampled_iterations mfs ct r (e # es) =
     (case find_media mfs (mediaId e) of
        None \<Rightarrow> sampled_iterations mfs ct r es
      | Some m \<Rightarrow>
          if mf_type m \<noteq> ''video'' then sampled_iterations mfs ct r es
          else (case mf_file m of
                  None \<Rightarrow> sampled_iterations mfs ct r es
                | Some f \<Rightarrow> map (\<lambda>t. (m, f, e, t)) (element_samples e ct r)
                            @ sampled_iterations mfs ct r es))"

definition plan_iterations :: "video_preloader \<Rightarrow> schedule_args \<Rightarrow> iteration list" where
  "plan_iterations s a =
     (let r = adjustedRadius s (playbackSpeed a);
          videoElements = findRelevantVideoElements (currentTime a) (tracks a) (mediaFiles a) r
      in sampled_iterations (mediaFiles a) (currentTime a) r videoElements)"

definition iteration_job :: "real \<Rightarrow> iteration \<Rightarrow> preload_job" where
  "iteration_job ct it = (case it of (m, f, e, t) \<Rightarrow> job_at m f e ct t)"

section \<open>Evaluation rules\<close>

lemma sample_times_step:
  "time < e \<Longrightarrow> sample_times time e = time # sample_times (time + 1 / 24) e"
  by (subst sample_times.simps) (simp add: frameInterval_def)

lemma sample_times_stop: "\<not> time < e \<Longrightarrow> sample_times time e = []"
  by (subst sample_times.simps) simp

lemma start_loop_Nil: "preloadQueue s = [] \<Longrightarrow> start_loop s = s"
  by (subst start_loop.simps) simp

lemma start_loop_start:
  "preloadQueue s = job # rest \<Longrightarrow> of_int (currentPreloads s) < maxConcurrentPreloads s \<Longrightarrow>
   start_loop s = start_loop (s\<lparr>preloadQueue := rest,
                 currentPreloads := currentPreloads s + 1,
                 idleCallbacks := idleCallbacks s @ [job]\<rparr>)"
  by (subst start_loop.simps) simp

lemma start_loop_full:
  "preloadQueue s = job # rest \<Longrightarrow> \<not> of_int (currentPreloads s) < maxConcurrentPreloads s \<Longrightarrow>
   start_loop s = s"
  by (subst start_loop.simps) simp

lemmas eval_simps =
  sample_times_step sample_times_stop start_loop_Nil start_loop_start start_loop_full
  video_v_def clip_def one_track_def one_clip_def job_v_def initial_def
  preload_plan_def unsorted_plan_def adjustedRadius_def findRelevantVideoElements_def
  find_media_def elementEnd_def element_samples_def preloadStart_def preloadEnd_def
  job_at_def Let_def schedulePreload_def processPreloadQueue_def configure_def
  clearQueue_def idleCallbackRuns_def finallyBlock_def jobSettles_def remove_at_def

section \<open>The concurrency bound\<close>

lemma int_succ_le: "(m::real) \<in> \<int> \<Longrightarrow> of_int c < m \<Longrightarrow> of_int (c + 1) \<le> m"
proof -
  assume "m \<in> \<int>" and lt: "of_int c < m"
  then obtain k :: int where k: "m = of_int k" by (auto elim: Ints_cases)
  with lt have "c < k" by simp
  then have "c + 1 \<le> k" by simp
  then have "(of_int (c + 1) :: real) \<le> of_int k" by (simp only: of_int_le_iff)
  with k show ?thesis by simp
qed

lemma start_loop_bound: "bound_inv s \<Longrightarrow> bound_inv (start_loop s)"
proof (induction s rule: start_loop.induct)
  case (1 s)
  show ?case
  proof (cases "preloadQueue s")
    case Nil
    with "1.prems" show ?thesis by (simp add: start_loop_Nil)
  next
    case (Cons job rest)
    show ?thesis
    proof (cases "of_int (currentPreloads s) < maxConcurrentPreloads s")
      case True
      have "bound_inv (s\<lparr>preloadQueue := rest, currentPreloads := currentPreloads s + 1,
                 idleCallbacks := idleCallbacks s @ [job]\<rparr>)"
        using "1.prems" True int_succ_le [of "maxConcurrentPreloads s" "currentPreloads s"]
        by (simp add: bound_inv_def)
      from "1.IH" [OF Cons True this] show ?thesis
        by (simp add: start_loop_start [OF Cons True])
    next
      case False
      with "1.prems" show ?thesis by (simp add: start_loop_full [OF Cons False])
    qed
  qed
qed

lemma start_loop_cap: "cap_inv s \<Longrightarrow> cap_inv (start_loop s)"
proof (induction s rule: start_loop.induct)
  case (1 s)
  show ?case
  proof (cases "preloadQueue s")
    case Nil
    with "1.prems" show ?thesis by (simp add: start_loop_Nil)
  next
    case (Cons job rest)
    show ?thesis
    proof (cases "of_int (currentPreloads s) < maxConcurrentPreloads s")
      case True
      have "(of_int (currentPreloads s) :: real) < 4"
        using True "1.prems" by (simp add: cap_inv_def)
      then have "currentPreloads s < 4" by simp
      then have "cap_inv (s\<lparr>preloadQueue := rest, currentPreloads := currentPreloads s + 1,
                 idleCallbacks := idleCallbacks s @ [job]\<rparr>)"
        using "1.prems" by (simp add: cap_inv_def)
      from "1.IH" [OF Cons True this] show ?thesis
        by (simp add: start_loop_start [OF Cons True])
    next
      case False
      with "1.prems" show ?thesis by (simp add: start_loop_full [OF Cons False])
    qed
  qed
qed

lemma bound_inv_fields:
  "maxConcurrentPreloads s' = maxConcurrentPreloads s \<Longrightarrow>
   currentPreloads s' \<le> currentPreloads s \<Longrightarrow> bound_inv s \<Longrightarrow> bound_inv s'"
  unfolding bound_inv_def
  by (metis of_int_le_iff order_trans)

lemma cap_inv_fields:
  "maxConcurrentPreloads s' = maxConcurrentPreloads s \<Longrightarrow>
   currentPreloads s' \<le> currentPreloads s \<Longrightarrow> cap_inv s \<Longrightarrow> cap_inv s'"
  unfolding cap_inv_def by simp

lemma bound_inv_isPreloading [simp]: "bound_inv (s\<lparr>isPreloading := b\<rparr>) = bound_inv s"
  by (simp add: bound_inv_def)

lemma cap_inv_isPreloading [simp]: "cap_inv (s\<lparr>isPreloading := b\<rparr>) = cap_inv s"
  by (simp add: cap_inv_def)

lemma process_bound: "bound_inv s \<Longrightarrow> bound_inv (processPreloadQueue s)"
  using start_loop_bound [of "s\<lparr>isPreloading := True\<rparr>"]
  by (simp add: processPreloadQueue_def Let_def)

lemma process_cap: "cap_inv s \<Longrightarrow> cap_inv (processPreloadQueue s)"
  using start_loop_cap [of "s\<lparr>isPreloading := True\<rparr>"]
  by (simp add: processPreloadQueue_def Let_def)

lemma finallyBlock_unfold:
  "s1 = s\<lparr>currentPreloads := currentPreloads s - 1\<rparr> \<Longrightarrow>
   finallyBlock s =
     (if preloadQueue s1 \<noteq> [] then processPreloadQueue s1
      else if currentPreloads s1 = 0 then s1\<lparr>isPreloading := False\<rparr> else s1)"
  by (simp add: finallyBlock_def Let_def)

lemma finally_bound: "bound_inv s \<Longrightarrow> bound_inv (finallyBlock s)"
proof -
  assume inv: "bound_inv s"
  define s1 where "s1 = s\<lparr>currentPreloads := currentPreloads s - 1\<rparr>"
  have a: "bound_inv s1"
    by (rule bound_inv_fields [OF _ _ inv]) (simp_all add: s1_def)
  show ?thesis
    unfolding finallyBlock_unfold [OF s1_def]
    using a process_bound [OF a] by simp
qed

lemma finally_cap: "cap_inv s \<Longrightarrow> cap_inv (finallyBlock s)"
proof -
  assume inv: "cap_inv s"
  define s1 where "s1 = s\<lparr>currentPreloads := currentPreloads s - 1\<rparr>"
  have a: "cap_inv s1"
    by (rule cap_inv_fields [OF _ _ inv]) (simp_all add: s1_def)
  show ?thesis
    unfolding finallyBlock_unfold [OF s1_def]
    using a process_cap [OF a] by simp
qed

lemma clamp_Ints: "(c::real) \<in> \<int> \<Longrightarrow> max 1 (min 4 c) \<in> \<int>"
  by (simp add: max_def min_def)

lemma step_cap: "cap_inv s \<Longrightarrow> step s ev = Some s' \<Longrightarrow> cap_inv s'"
proof (cases ev)
  case (SchedulePreload a)
  assume inv: "cap_inv s" and st: "step s ev = Some s'"
  have "cap_inv (s\<lparr>preloadQueue := preload_plan s a\<rparr>)"
    using inv by (simp add: cap_inv_def)
  from process_cap [OF this] st SchedulePreload show ?thesis
    by (simp add: schedulePreload_def)
next
  case (Configure radius conc)
  assume inv: "cap_inv s" and st: "step s ev = Some s'"
  then show ?thesis using Configure
    by (cases radius; cases conc) (auto simp: configure_def cap_inv_def)
next
  case ClearQueue
  assume inv: "cap_inv s" and st: "step s ev = Some s'"
  then show ?thesis using ClearQueue by (auto simp: clearQueue_def cap_inv_def)
next
  case (IdleCallback i)
  assume inv: "cap_inv s" and st: "step s ev = Some s'"
  then show ?thesis using IdleCallback
    by (auto simp: idleCallbackRuns_def cap_inv_def Let_def split: if_splits)
next
  case (Settle i r)
  assume inv: "cap_inv s" and st: "step s ev = Some s'"
  have "cap_inv (case r of Resolved \<Rightarrow> s\<lparr>inFlight := remove_at i (inFlight s)\<rparr>
     | Rejected err \<Rightarrow> s\<lparr>inFlight := remove_at i (inFlight s)\<rparr>
         \<lparr>warnings := warnings (s\<lparr>inFlight := remove_at i (inFlight s)\<rparr>)
            @ [(inFlight s ! i, err)]\<rparr>)"
    using inv by (cases r) (simp_all add: cap_inv_def)
  from finally_cap [OF this] st Settle show ?thesis
    by (auto simp: jobSettles_def Let_def split: if_splits)
qed

lemma step_bound:
  "bound_inv s \<Longrightarrow> keeps_bound s ev \<Longrightarrow> step s ev = Some s' \<Longrightarrow> bound_inv s'"
proof (cases ev)
  case (SchedulePreload a)
  assume inv: "bound_inv s" and st: "step s ev = Some s'"
  have "bound_inv (s\<lparr>preloadQueue := preload_plan s a\<rparr>)"
    using inv by (simp add: bound_inv_def)
  from process_bound [OF this] st SchedulePreload show ?thesis
    by (simp add: schedulePreload_def)
next
  case (Configure radius conc)
  assume inv: "bound_inv s" and st: "step s ev = Some s'" and kb: "keeps_bound s ev"
  then show ?thesis using Configure
    by (cases radius; cases conc) (auto simp: configure_def bound_inv_def clamp_Ints)
next
  case ClearQueue
  assume inv: "bound_inv s" and st: "step s ev = Some s'"
  then show ?thesis using ClearQueue by (auto simp: clearQueue_def bound_inv_def)
next
  case (IdleCallback i)
  assume inv: "bound_inv s" and st: "step s ev = Some s'"
  then show ?thesis using IdleCallback
    by (auto simp: idleCallbackRuns_def bound_inv_def Let_def split: if_splits)
next
  case (Settle i r)
  assume inv: "bound_inv s" and st: "step s ev = Some s'"
  have "bound_inv (case r of Resolved \<Rightarrow> s\<lparr>inFlight := remove_at i (inFlight s)\<rparr>
     | Rejected err \<Rightarrow> s\<lparr>inFlight := remove_at i (inFlight s)\<rparr>
         \<lparr>warnings := warnings (s\<lparr>inFlight := remove_at i (inFlight s)\<rparr>)
            @ [(inFlight s ! i, err)]\<rparr>)"
    using inv by (cases r) (simp_all add: bound_inv_def)
  from finally_bound [OF this] st Settle show ?thesis
    by (auto simp: jobSettles_def Let_def split: if_splits)
qed

lemma run_cap: "cap_inv s \<Longrightarrow> run s evs = Some s' \<Longrightarrow> cap_inv s'"
proof (induction evs arbitrary: s)
  case Nil
  then show ?case by simp
next
  case (Cons ev evs)
  then show ?case by (auto split: option.splits dest: step_cap)
qed

lemma run_bound:
  "bound_inv s \<Longrightarrow> admissible s evs \<Longrightarrow> run s evs = Some s' \<Longrightarrow> bound_inv s'"
proof (induction evs arbitrary: s)
  case Nil
  then show ?case by simp
next
  case (Cons ev evs)
  then show ?case by (auto split: option.splits dest: step_bound)
qed

text \<open>
  C1, as stated: in every state reachable by \<^verbatim>\<open>schedulePreload\<close>, \<^verbatim>\<open>configure\<close>,
  \<^verbatim>\<open>clearQueue\<close> and job steps, \<^verbatim>\<open>currentPreloads\<close> is at most
  \<^verbatim>\<open>maxConcurrentPreloads\<close>. It fails: with the default limit 2 a plan of two jobs starts
  both, and \<^verbatim>\<open>configure({maxConcurrentPreloads: 1})\<close> then lowers the limit to 1 while
  two jobs are active.
\<close>

theorem active_preloads_exceed_lowered_limit:
  "run initial [SchedulePreload (one_clip 0 0 (1 / 12)), Configure None (Some 1)]
     = Some (initial\<lparr>isPreloading := True, maxConcurrentPreloads := 1, currentPreloads := 2,
         idleCallbacks := [job_v 0 100, job_v (1 / 24) (1195 / 12)]\<rparr>)
   \<and> \<not> of_int (currentPreloads (the (run initial
           [SchedulePreload (one_clip 0 0 (1 / 12)), Configure None (Some 1)])))
         \<le> maxConcurrentPreloads (the (run initial
           [SchedulePreload (one_clip 0 0 (1 / 12)), Configure None (Some 1)]))"
  by (simp add: eval_simps)

text \<open>
  C1, amended: in every reachable state at most 4 jobs are active (4 is the largest
  limit \<^verbatim>\<open>configure\<close> stores), and the number of active jobs is at most the configured
  \<^verbatim>\<open>maxConcurrentPreloads\<close> as long as every \<^verbatim>\<open>configure\<close> call that supplies
  \<^verbatim>\<open>maxConcurrentPreloads\<close> supplies an integer whose clamped value is not below the
  number of jobs active at that moment.
\<close>

theorem active_preloads_bounded:
  assumes "run initial evs = Some s"
  shows "currentPreloads s \<le> 4
     \<and> (admissible initial evs \<longrightarrow> of_int (currentPreloads s) \<le> maxConcurrentPreloads s)"
proof -
  have c: "cap_inv initial" by (simp add: cap_inv_def initial_def)
  have b: "bound_inv initial" by (simp add: bound_inv_def initial_def)
  from run_cap [OF c assms] run_bound [OF b _ assms] show ?thesis
    by (auto simp: cap_inv_def bound_inv_def)
qed

theorem active_preloads_bounded_witness:
  "run initial [SchedulePreload (one_clip 0 0 (1 / 8)), Configure None (Some 3),
       IdleCallback 0, Settle 0 (Rejected ''decode failed''), ClearQueue]
     = Some (initial\<lparr>isPreloading := True, maxConcurrentPreloads := 3, currentPreloads := 1,
         idleCallbacks := [job_v (1 / 24) (1195 / 12)],
         decodeCalls := [job_v 0 100],
         warnings := [(job_v 0 100, ''decode failed'')]\<rparr>)
   \<and> admissible initial [SchedulePreload (one_clip 0 0 (1 / 8)), Configure None (Some 3),
       IdleCallback 0, Settle 0 (Rejected ''decode failed''), ClearQueue]
   \<and> (1::int) \<le> 4 \<and> (of_int 1 :: real) \<le> 3"
proof -
  have r: "run initial [SchedulePreload (one_clip 0 0 (1 / 8)), Configure None (Some 3),
       IdleCallback 0, Settle 0 (Rejected ''decode failed''), ClearQueue]
     = Some (initial\<lparr>isPreloading := True, maxConcurrentPreloads := 3, currentPreloads := 1,
         idleCallbacks := [job_v (1 / 24) (1195 / 12)],
         decodeCalls := [job_v 0 100],
         warnings := [(job_v 0 100, ''decode failed'')]\<rparr>)"
    by (simp add: eval_simps)
  have a: "admissible initial [SchedulePreload (one_clip 0 0 (1 / 8)), Configure None (Some 3),
       IdleCallback 0, Settle 0 (Rejected ''decode failed''), ClearQueue]"
    by (simp add: eval_simps)
  from active_preloads_bounded [OF r] a r show ?thesis by simp
qed


section \<open>Draining, failures and clearing\<close>

lemma start_loop_warnings:
  "start_loop (s\<lparr>warnings := w\<rparr>) = (start_loop s)\<lparr>warnings := w\<rparr>"
proof (induction s rule: start_loop.induct)
  case (1 s)
  show ?case
  proof (cases "preloadQueue s")
    case Nil
    then show ?thesis by (simp add: start_loop_Nil)
  next
    case (Cons job rest)
    show ?thesis
    proof (cases "of_int (currentPreloads s) < maxConcurrentPreloads s")
      case True
      have q: "preloadQueue (s\<lparr>warnings := w\<rparr>) = job # rest"
        and c: "of_int (currentPreloads (s\<lparr>warnings := w\<rparr>))
                 < maxConcurrentPreloads (s\<lparr>warnings := w\<rparr>)"
        using Cons True by simp_all
      have swap: "s\<lparr>warnings := w, preloadQueue := rest,
            currentPreloads := currentPreloads s + 1, idleCallbacks := idleCallbacks s @ [job]\<rparr>
          = s\<lparr>preloadQueue := rest, currentPreloads := currentPreloads s + 1,
              idleCallbacks := idleCallbacks s @ [job], warnings := w\<rparr>"
        by (cases s) simp
      show ?thesis
        using "1.IH" [OF Cons True]
        by (simp add: start_loop_start [OF Cons True] start_loop_start [OF q c] swap)
    next
      case False
      have q: "preloadQueue (s\<lparr>warnings := w\<rparr>) = job # rest"
        and c: "\<not> of_int (currentPreloads (s\<lparr>warnings := w\<rparr>))
                 < maxConcurrentPreloads (s\<lparr>warnings := w\<rparr>)"
        using Cons False by simp_all
      show ?thesis
        by (simp add: start_loop_full [OF Cons False] start_loop_full [OF q c])
    qed
  qed
qed

lemma process_warnings:
  "processPreloadQueue (s\<lparr>warnings := w\<rparr>) = (processPreloadQueue s)\<lparr>warnings := w\<rparr>"
proof -
  have "start_loop (s\<lparr>warnings := w, isPreloading := True\<rparr>)
          = (start_loop (s\<lparr>isPreloading := True\<rparr>))\<lparr>warnings := w\<rparr>"
    using start_loop_warnings [where s = "s\<lparr>isPreloading := True\<rparr>" and w = w]
    by (cases s) simp
  then show ?thesis
    by (simp add: processPreloadQueue_def Let_def)
qed

lemma finally_warnings:
  "finallyBlock (s\<lparr>warnings := w\<rparr>) = (finallyBlock s)\<lparr>warnings := w\<rparr>"
proof -
  have "processPreloadQueue (s\<lparr>warnings := w, currentPreloads := currentPreloads s - 1\<rparr>)
          = (processPreloadQueue (s\<lparr>currentPreloads := currentPreloads s - 1\<rparr>))\<lparr>warnings := w\<rparr>"
    using process_warnings [where s = "s\<lparr>currentPreloads := currentPreloads s - 1\<rparr>" and w = w]
    by (cases s) simp
  then show ?thesis
    by (simp add: finallyBlock_def Let_def)
qed

lemma start_loop_conserves:
  "pending (start_loop s) = pending s \<and> uncounted (start_loop s) = uncounted s
   \<and> inFlight (start_loop s) = inFlight s \<and> isPreloading (start_loop s) = isPreloading s"
proof (induction s rule: start_loop.induct)
  case (1 s)
  show ?case
  proof (cases "preloadQueue s")
    case Nil
    then show ?thesis by (simp add: start_loop_Nil)
  next
    case (Cons job rest)
    show ?thesis
    proof (cases "of_int (currentPreloads s) < maxConcurrentPreloads s")
      case True
      show ?thesis
        using "1.IH" [OF Cons True] Cons
        by (simp add: start_loop_start [OF Cons True] pending_def uncounted_def)
    next
      case False
      show ?thesis
        by (simp add: start_loop_full [OF Cons False])
    qed
  qed
qed

lemma process_conserves:
  "pending (processPreloadQueue s) = pending s
   \<and> uncounted (processPreloadQueue s) = uncounted s
   \<and> inFlight (processPreloadQueue s) = inFlight s"
  using start_loop_conserves [of "s\<lparr>isPreloading := True\<rparr>"]
  by (simp add: processPreloadQueue_def Let_def pending_def uncounted_def)

lemma finally_conserves:
  "pending (finallyBlock s) = pending s \<and> uncounted (finallyBlock s) = uncounted s - 1"
  using process_conserves [of "s\<lparr>currentPreloads := currentPreloads s - 1\<rparr>"]
  by (simp add: finallyBlock_def Let_def pending_def uncounted_def)

lemma process_while_preloading: "isPreloading s \<Longrightarrow> processPreloadQueue s = s"
  by (simp add: processPreloadQueue_def)


lemma process_job_inv: "job_inv s \<Longrightarrow> job_inv (processPreloadQueue s)"
proof (cases "isPreloading s \<or> preloadQueue s = []")
  case True
  assume "job_inv s"
  with True show ?thesis by (simp add: processPreloadQueue_def)
next
  case False
  assume inv: "job_inv s"
  define s1 where "s1 = start_loop (s\<lparr>isPreloading := True\<rparr>)"
  have c: "uncounted s1 = uncounted s" "inFlight s1 = inFlight s" "isPreloading s1"
    using start_loop_conserves [of "s\<lparr>isPreloading := True\<rparr>"]
    by (simp_all add: s1_def uncounted_def)
  have p: "processPreloadQueue s = (if currentPreloads s1 = 0 then s1\<lparr>isPreloading := False\<rparr> else s1)"
    using False by (simp add: processPreloadQueue_def Let_def s1_def)
  show ?thesis
    unfolding p using inv c by (auto simp: job_inv_def uncounted_def)
qed

lemma finally_after_job:
  assumes "isPreloading s"
  shows "currentPreloads (finallyBlock s) = currentPreloads s - 1
     \<and> preloadQueue (finallyBlock s) = preloadQueue s
     \<and> idleCallbacks (finallyBlock s) = idleCallbacks s
     \<and> inFlight (finallyBlock s) = inFlight s
     \<and> (isPreloading (finallyBlock s) \<or> currentPreloads (finallyBlock s) = 0)"
  using assms by (simp add: finallyBlock_def Let_def processPreloadQueue_def)

lemma length_remove_at: "i < length xs \<Longrightarrow> length (remove_at i xs) = length xs - 1"
  by (simp add: remove_at_def)

lemma step_job_inv: "job_inv s \<Longrightarrow> step s ev = Some s' \<Longrightarrow> job_inv s'"
proof (cases ev)
  case (SchedulePreload a)
  assume inv: "job_inv s" and st: "step s ev = Some s'"
  have "job_inv (s\<lparr>preloadQueue := preload_plan s a\<rparr>)"
    using inv by (auto simp: job_inv_def)
  from process_job_inv [OF this] st SchedulePreload show ?thesis
    by (simp add: schedulePreload_def)
next
  case (Configure radius conc)
  assume inv: "job_inv s" and st: "step s ev = Some s'"
  then show ?thesis using Configure
    by (cases radius; cases conc) (auto simp: configure_def job_inv_def)
next
  case ClearQueue
  assume inv: "job_inv s" and st: "step s ev = Some s'"
  then show ?thesis using ClearQueue by (auto simp: clearQueue_def job_inv_def)
next
  case (IdleCallback i)
  assume inv: "job_inv s" and st: "step s ev = Some s'"
  then show ?thesis using IdleCallback
    by (auto simp: idleCallbackRuns_def job_inv_def Let_def length_remove_at split: if_splits)
next
  case (Settle i r)
  assume inv: "job_inv s" and st: "step s ev = Some s'"
  from st Settle have i: "i < length (inFlight s)"
    by (simp split: if_splits)
  with inv have pre: "isPreloading s" by (auto simp: job_inv_def)
  define s0 where "s0 = (case r of Resolved \<Rightarrow> s\<lparr>inFlight := remove_at i (inFlight s)\<rparr>
     | Rejected err \<Rightarrow> s\<lparr>inFlight := remove_at i (inFlight s)\<rparr>
         \<lparr>warnings := warnings (s\<lparr>inFlight := remove_at i (inFlight s)\<rparr>)
            @ [(inFlight s ! i, err)]\<rparr>)"
  have f: "isPreloading s0" "currentPreloads s0 = currentPreloads s"
    "idleCallbacks s0 = idleCallbacks s" "inFlight s0 = remove_at i (inFlight s)"
    using pre by (cases r; simp add: s0_def)+
  have s': "s' = finallyBlock s0"
    using st Settle i by (simp add: jobSettles_def Let_def s0_def)
  show ?thesis
    unfolding s' using finally_after_job [OF f(1)] f inv i
    by (auto simp: job_inv_def length_remove_at)
qed

lemma run_job_inv: "job_inv s \<Longrightarrow> run s evs = Some s' \<Longrightarrow> job_inv s'"
proof (induction evs arbitrary: s)
  case Nil
  then show ?case by simp
next
  case (Cons ev evs)
  then show ?case by (auto split: option.splits dest: step_job_inv)
qed

lemma reachable_job_inv: "run initial evs = Some s \<Longrightarrow> job_inv s"
  by (rule run_job_inv [of initial]) (simp_all add: job_inv_def initial_def)

text \<open>
  C2 (the code does not do what the claim says). The default limit is 2 and the plan
  has three jobs. \<^verbatim>\<open>schedulePreload\<close> starts the first two and leaves \<^verbatim>\<open>isPreloading\<close>
  set. When each of them completes, the \<^verbatim>\<open>finally\<close> block calls
  \<^verbatim>\<open>processPreloadQueue\<close>, whose guard returns at once because \<^verbatim>\<open>isPreloading\<close> is still
  set. After both have completed nothing is pending, the third job is still queued
  and was never handed to the decoder, and no job event is enabled any more.
\<close>

theorem queue_stalls_after_first_batch:
  "preload_plan initial (one_clip 0 0 (1 / 8))
     = [job_v 0 100, job_v (1 / 24) (1195 / 12), job_v (1 / 12) (595 / 6)]
   \<and> run initial [SchedulePreload (one_clip 0 0 (1 / 8)), IdleCallback 0, IdleCallback 0,
         Settle 0 Resolved, Settle 0 Resolved]
     = Some (initial\<lparr>preloadQueue := [job_v (1 / 12) (595 / 6)], isPreloading := True,
         currentPreloads := 0, decodeCalls := [job_v 0 100, job_v (1 / 24) (1195 / 12)]\<rparr>)
   \<and> step (initial\<lparr>preloadQueue := [job_v (1 / 12) (595 / 6)], isPreloading := True,
         currentPreloads := 0, decodeCalls := [job_v 0 100, job_v (1 / 24) (1195 / 12)]\<rparr>)
       (IdleCallback i) = None
   \<and> step (initial\<lparr>preloadQueue := [job_v (1 / 12) (595 / 6)], isPreloading := True,
         currentPreloads := 0, decodeCalls := [job_v 0 100, job_v (1 / 24) (1195 / 12)]\<rparr>)
       (Settle i r) = None"
  by (simp add: eval_simps)

text \<open>
  C8. In every reachable state, when the awaited \<^verbatim>\<open>getFrameAt\<close> call of an in-flight job
  fails, the callback ends normally (no exception leaves it), a warning is logged, the
  active count goes down by one, and the queue and the registered callbacks are what
  they were: the state is the one a successful call leaves, apart from the warning.
\<close>

theorem failed_preload_is_swallowed:
  assumes "run initial evs = Some s" and "i < length (inFlight s)"
  shows "\<exists>s'. step s (Settle i (Rejected err)) = Some s'
     \<and> step s (Settle i Resolved) = Some (s'\<lparr>warnings := warnings s\<rparr>)
     \<and> warnings s' = warnings s @ [(inFlight s ! i, err)]
     \<and> currentPreloads s' = currentPreloads s - 1
     \<and> preloadQueue s' = preloadQueue s
     \<and> idleCallbacks s' = idleCallbacks s
     \<and> inFlight s' = remove_at i (inFlight s)"
proof -
  from reachable_job_inv [OF assms(1)] assms(2) have pre: "isPreloading s"
    by (auto simp: job_inv_def)
  define s0 where "s0 = s\<lparr>inFlight := remove_at i (inFlight s)\<rparr>"
  define w where "w = warnings s @ [(inFlight s ! i, err)]"
  have p0: "isPreloading s0" and pw: "isPreloading (s0\<lparr>warnings := w\<rparr>)"
    using pre by (simp_all add: s0_def)
  have rej: "step s (Settle i (Rejected err)) = Some (finallyBlock (s0\<lparr>warnings := w\<rparr>))"
    using assms(2) by (simp add: jobSettles_def s0_def w_def)
  have res: "step s (Settle i Resolved) = Some (finallyBlock s0)"
    using assms(2) by (simp add: jobSettles_def s0_def)
  have same: "s0\<lparr>warnings := warnings s\<rparr> = s0"
    by (simp add: s0_def)
  have undo: "(finallyBlock (s0\<lparr>warnings := w\<rparr>))\<lparr>warnings := warnings s\<rparr> = finallyBlock s0"
    using finally_warnings [where s = s0 and w = "warnings s"]
    by (simp add: finally_warnings same)
  have w': "warnings (finallyBlock (s0\<lparr>warnings := w\<rparr>)) = w"
    by (simp add: finally_warnings)
  show ?thesis
    using rej res undo w' finally_after_job [OF pw]
    by (simp add: w_def s0_def)
qed

theorem failed_preload_is_swallowed_witness:
  "run initial [SchedulePreload (one_clip 0 0 (1 / 8)), IdleCallback 0]
     = Some (initial\<lparr>preloadQueue := [job_v (1 / 12) (595 / 6)], isPreloading := True,
         currentPreloads := 2, idleCallbacks := [job_v (1 / 24) (1195 / 12)],
         inFlight := [job_v 0 100], decodeCalls := [job_v 0 100]\<rparr>)
   \<and> step (initial\<lparr>preloadQueue := [job_v (1 / 12) (595 / 6)], isPreloading := True,
         currentPreloads := 2, idleCallbacks := [job_v (1 / 24) (1195 / 12)],
         inFlight := [job_v 0 100], decodeCalls := [job_v 0 100]\<rparr>)
       (Settle 0 (Rejected ''corrupt source''))
     = Some (initial\<lparr>preloadQueue := [job_v (1 / 12) (595 / 6)], isPreloading := True,
         currentPreloads := 1, idleCallbacks := [job_v (1 / 24) (1195 / 12)],
         decodeCalls := [job_v 0 100],
         warnings := [(job_v 0 100, ''corrupt source'')]\<rparr>)"
proof -
  have r: "run initial [SchedulePreload (one_clip 0 0 (1 / 8)), IdleCallback 0]
     = Some (initial\<lparr>preloadQueue := [job_v (1 / 12) (595 / 6)], isPreloading := True,
         currentPreloads := 2, idleCallbacks := [job_v (1 / 24) (1195 / 12)],
         inFlight := [job_v 0 100], decodeCalls := [job_v 0 100]\<rparr>)"
    by (simp add: eval_simps)
  have i: "0 < length (inFlight (initial\<lparr>preloadQueue := [job_v (1 / 12) (595 / 6)],
         isPreloading := True,
         currentPreloads := 2, idleCallbacks := [job_v (1 / 24) (1195 / 12)],
         inFlight := [job_v 0 100], decodeCalls := [job_v 0 100]\<rparr>))"
    by simp
  from failed_preload_is_swallowed [OF r i, of "''corrupt source''"]
  show ?thesis using r by (auto simp: eval_simps)
qed

text \<open>
  C9. \<^verbatim>\<open>clearQueue\<close> empties the queue and changes no other field: the statistics report
  queue length 0 with the same active count and the same \<^verbatim>\<open>isPreloading\<close>, the radius
  and the limit are unchanged, and the registered callbacks and in-flight calls stay.
  \<^verbatim>\<open>schedulePreload\<close> does not depend on the queue it finds: whatever was queued before is
  discarded, so it behaves as if \<^verbatim>\<open>clearQueue\<close> had been called first.
\<close>

theorem clearQueue_only_empties_queue:
  "clearQueue s = s\<lparr>preloadQueue := []\<rparr>
   \<and> getStats (clearQueue s) = (0, currentPreloads s, isPreloading s)
   \<and> preloadRadius (clearQueue s) = preloadRadius s
   \<and> maxConcurrentPreloads (clearQueue s) = maxConcurrentPreloads s
   \<and> idleCallbacks (clearQueue s) = idleCallbacks s
   \<and> inFlight (clearQueue s) = inFlight s
   \<and> preload_plan (s\<lparr>preloadQueue := q\<rparr>) a = preload_plan s a
   \<and> schedulePreload (s\<lparr>preloadQueue := q\<rparr>) a = schedulePreload s a
   \<and> schedulePreload (clearQueue s) a = schedulePreload s a"
  by (simp add: clearQueue_def getStats_def schedulePreload_def preload_plan_def
      unsorted_plan_def adjustedRadius_def Let_def)

section \<open>Configuration\<close>

text \<open>
  C10. In \<^verbatim>\<open>configure\<close>, an omitted field leaves the corresponding setting unchanged:
  \<^verbatim>\<open>configure({})\<close> changes nothing at all, a call that gives only \<^verbatim>\<open>preloadRadius\<close>
  leaves \<^verbatim>\<open>maxConcurrentPreloads\<close> as it was, and a call that gives only
  \<^verbatim>\<open>maxConcurrentPreloads\<close> leaves \<^verbatim>\<open>preloadRadius\<close> as it was.
\<close>

theorem configure_omitted_unchanged:
  "configure s None None = s
   \<and> maxConcurrentPreloads (configure s (Some r) None) = maxConcurrentPreloads s
   \<and> preloadRadius (configure s None (Some c)) = preloadRadius s
   \<and> preloadRadius (configure s None None) = preloadRadius s
   \<and> maxConcurrentPreloads (configure s None None) = maxConcurrentPreloads s"
  by (simp add: configure_def)

text \<open>
  On every finite value \<^verbatim>\<open>configure\<close> stores a radius in [1, 10] and a concurrency in
  [1, 4]: a value below the range becomes the lower bound, a value above it the upper
  bound, a value inside is kept. A radius of 999 becomes 10 and a concurrency of 0
  becomes 1.
\<close>

lemma configure_clamps_finite:
  "1 \<le> preloadRadius (configure s (Some r) conc)
   \<and> preloadRadius (configure s (Some r) conc) \<le> 10
   \<and> 1 \<le> maxConcurrentPreloads (configure s radius (Some c))
   \<and> maxConcurrentPreloads (configure s radius (Some c)) \<le> 4
   \<and> preloadRadius (configure s (Some r) conc) = (if r < 1 then 1 else if 10 < r then 10 else r)
   \<and> maxConcurrentPreloads (configure s radius (Some c))
       = (if c < 1 then 1 else if 4 < c then 4 else c)
   \<and> preloadRadius (configure s (Some 999) None) = 10
   \<and> maxConcurrentPreloads (configure s None (Some 0)) = 1"
  by (cases conc; cases radius) (auto simp: configure_def)

text \<open>
  C6 (the code does not do what the claim says). For a NaN argument the expression
  \<^verbatim>\<open>Math.max(1, Math.min(10, preloadRadius))\<close> is NaN, and so is
  \<^verbatim>\<open>Math.max(1, Math.min(4, maxConcurrentPreloads))\<close>: \<^verbatim>\<open>configure\<close> stores NaN, which is
  in neither range. For the two infinities the stored value is the nearer bound, and
  for a finite value it is the value that \<open>configure\<close> stores in the model.
\<close>

theorem configure_stores_NaN:
  "clamped 1 10 NaN = NaN
   \<and> clamped 1 4 NaN = NaN
   \<and> clamped 1 10 PosInfinity = Finite 10 \<and> clamped 1 10 NegInfinity = Finite 1
   \<and> clamped 1 4 PosInfinity = Finite 4 \<and> clamped 1 4 NegInfinity = Finite 1
   \<and> clamped 1 10 (Finite r) = Finite (preloadRadius (configure s (Some r) conc))
   \<and> clamped 1 4 (Finite c) = Finite (maxConcurrentPreloads (configure s radius (Some c)))
   \<and> clamped 1 10 (Finite 999) = Finite 10
   \<and> clamped 1 4 (Finite 0) = Finite 1"
  by (cases conc; cases radius) (simp_all add: clamped_def configure_def)

section \<open>Performance status and grade\<close>

lemma status_issues:
  "issues (getPerformanceStatus m) =
     (if frameRate m < 24 then [LowFrameRate (frameRate m) 24] else [])
     @ (if memoryUsage m > 2 ^ 30
        then [HighMemoryUsage (math_round (memoryUsage m / (1024 * 1024)))] else [])
     @ (if cacheHitRate m < 8 / 10 then [LowCacheHitRate (math_round (cacheHitRate m * 100))]
        else [])
     @ (if videoDecodingTime m > 50 then [SlowVideoDecoding (math_round (videoDecodingTime m))]
        else [])
     @ (if renderTime m > 16 then [SlowRendering (math_round (renderTime m))] else [])"
  by (simp add: getPerformanceStatus_def thresholds_def report_def Let_def)

lemma status_suggestions:
  "suggestions (getPerformanceStatus m) =
     (if frameRate m < 24
      then [''Consider reducing video quality or closing other browser tabs''] else [])
     @ (if memoryUsage m > 2 ^ 30
        then [''Try clearing video cache or reducing timeline complexity''] else [])
     @ (if cacheHitRate m < 8 / 10
        then [''Allow more time for video preloading or reduce playback speed''] else [])
     @ (if videoDecodingTime m > 50
        then [''Try using lower resolution videos or converting to a more efficient codec'']
        else [])
     @ (if renderTime m > 16
        then [''Reduce the number of timeline elements or disable preview effects''] else [])"
  by (simp add: getPerformanceStatus_def thresholds_def report_def Let_def)

lemma status_isGood:
  "isGood (getPerformanceStatus m) = (issues (getPerformanceStatus m) = [])"
  by (simp add: getPerformanceStatus_def Let_def)

lemma count_unfold:
  "violation_count m =
     (if frameRate m < 24 then 1 else 0) + (if memoryUsage m > 2 ^ 30 then 1 else 0)
     + (if cacheHitRate m < 8 / 10 then 1 else 0) + (if videoDecodingTime m > 50 then 1 else 0)
     + (if renderTime m > 16 then 1 else 0)"
  by (simp add: violation_count_def violated_thresholds_def)

lemma length_issues: "length (issues (getPerformanceStatus m)) = violation_count m"
  unfolding status_issues count_unfold by simp

lemma length_suggestions: "length (suggestions (getPerformanceStatus m)) = violation_count m"
  unfolding status_suggestions count_unfold by simp

lemma grade_by_count:
  "getPerformanceGrade m =
     (if violation_count m = 0 then ''A'' else if violation_count m = 1 then ''B''
      else if violation_count m = 2 then ''C'' else if violation_count m = 3 then ''D''
      else ''F'')"
  by (simp only: getPerformanceGrade_def Let_def length_issues)

lemma rank_by_count: "grade_rank (getPerformanceGrade m) = min 4 (violation_count m)"
  by (simp add: grade_by_count grade_rank_def)

text \<open>
  C7. \<^verbatim>\<open>getPerformanceStatus\<close> returns one issue and one suggestion per violated
  threshold of the table (frame rate below 24, memory above \<open>2 ^ 30\<close>, hit rate below
  0.8, decoding above 50, rendering above 16), each issue being the one of its
  threshold, and \<^verbatim>\<open>isGood\<close> holds exactly when nothing is violated.
  \<^verbatim>\<open>getPerformanceGrade\<close> is A, B, C, D for 0, 1, 2, 3 violations and F for 4 or more; a
  snapshot with strictly more violations never gets a better grade.
\<close>

theorem performance_status_and_grade:
  "length (issues (getPerformanceStatus m)) = violation_count m
   \<and> length (suggestions (getPerformanceStatus m)) = violation_count m
   \<and> isGood (getPerformanceStatus m) = (violation_count m = 0)
   \<and> (LowFrameRate (frameRate m) 24 \<in> set (issues (getPerformanceStatus m)))
       = (frameRate m < 24)
   \<and> (HighMemoryUsage (math_round (memoryUsage m / (1024 * 1024)))
         \<in> set (issues (getPerformanceStatus m))) = (memoryUsage m > 2 ^ 30)
   \<and> (LowCacheHitRate (math_round (cacheHitRate m * 100))
         \<in> set (issues (getPerformanceStatus m))) = (cacheHitRate m < 8 / 10)
   \<and> (SlowVideoDecoding (math_round (videoDecodingTime m))
         \<in> set (issues (getPerformanceStatus m))) = (videoDecodingTime m > 50)
   \<and> (SlowRendering (math_round (renderTime m))
         \<in> set (issues (getPerformanceStatus m))) = (renderTime m > 16)
   \<and> getPerformanceGrade m =
       (if violation_count m = 0 then ''A'' else if violation_count m = 1 then ''B''
        else if violation_count m = 2 then ''C'' else if violation_count m = 3 then ''D''
        else ''F'')
   \<and> (violation_count m < violation_count m'
        \<longrightarrow> grade_rank (getPerformanceGrade m) \<le> grade_rank (getPerformanceGrade m'))"
proof -
  have good: "isGood (getPerformanceStatus m) = (violation_count m = 0)"
    by (simp add: status_isGood length_issues [symmetric])
  have mem: "(LowFrameRate (frameRate m) 24 \<in> set (issues (getPerformanceStatus m)))
       = (frameRate m < 24)"
    "(HighMemoryUsage (math_round (memoryUsage m / (1024 * 1024)))
         \<in> set (issues (getPerformanceStatus m))) = (memoryUsage m > 2 ^ 30)"
    "(LowCacheHitRate (math_round (cacheHitRate m * 100))
         \<in> set (issues (getPerformanceStatus m))) = (cacheHitRate m < 8 / 10)"
    "(SlowVideoDecoding (math_round (videoDecodingTime m))
         \<in> set (issues (getPerformanceStatus m))) = (videoDecodingTime m > 50)"
    "(SlowRendering (math_round (renderTime m))
         \<in> set (issues (getPerformanceStatus m))) = (renderTime m > 16)"
    unfolding status_issues by simp_all
  have mono: "violation_count m < violation_count m'
        \<longrightarrow> grade_rank (getPerformanceGrade m) \<le> grade_rank (getPerformanceGrade m')"
    unfolding rank_by_count by auto
  show ?thesis
    using length_issues [of m] length_suggestions [of m] good mem grade_by_count [of m] mono
    by simp
qed

theorem performance_status_and_grade_witness:
  "violation_count (metrics 30 0 (9 / 10) 60 10) < violation_count (metrics 20 0 (1 / 2) 60 10)
   \<and> getPerformanceGrade (metrics 30 0 (9 / 10) 60 10) = ''B''
   \<and> getPerformanceGrade (metrics 20 0 (1 / 2) 60 10) = ''D''
   \<and> grade_rank ''B'' \<le> grade_rank ''D''
   \<and> issues (getPerformanceStatus (metrics 30 0 (9 / 10) 60 10)) = [SlowVideoDecoding 60]
   \<and> \<not> isGood (getPerformanceStatus (metrics 30 0 (9 / 10) 60 10))"
proof -
  have c: "violation_count (metrics 30 0 (9 / 10) 60 10) = 1"
    "violation_count (metrics 20 0 (1 / 2) 60 10) = 3"
    by (simp_all add: count_unfold metrics_def)
  have i: "issues (getPerformanceStatus (metrics 30 0 (9 / 10) 60 10)) = [SlowVideoDecoding 60]"
    by (simp add: status_issues metrics_def math_round_def)
  have g: "getPerformanceGrade (metrics 30 0 (9 / 10) 60 10) = ''B''"
    "getPerformanceGrade (metrics 20 0 (1 / 2) 60 10) = ''D''"
    by (simp_all add: grade_by_count c)
  from performance_status_and_grade
    [of "metrics 30 0 (9 / 10) 60 10" "metrics 20 0 (1 / 2) 60 10"] c i g
  show ?thesis by (simp add: grade_rank_def)
qed


section \<open>The jobs of a plan\<close>

lemma relevant_in_track_filter:
  "relevant_in_track lo hi mfs es = filter (relevant_elem lo hi mfs) es"
  by (induction es) (auto simp: relevant_elem_def split: option.splits)

lemma relevant_in_tracks_filter:
  "relevant_in_tracks lo hi mfs trs = filter (relevant_elem lo hi mfs) (candidates trs)"
  by (induction trs) (simp_all add: candidates_def relevant_in_track_filter)

lemma findRelevant_filter:
  "findRelevantVideoElements ct trs mfs r
     = filter (relevant_elem (ct - 1) (ct + r) mfs) (candidates trs)"
  by (simp add: findRelevantVideoElements_def relevant_in_tracks_filter)

lemma set_candidates:
  "e \<in> set (candidates trs)
     \<longleftrightarrow> (\<exists>tr \<in> set trs. \<not> muted tr \<and> tr_type tr = ''media'' \<and> e \<in> set (elements tr))"
  by (auto simp: candidates_def)

lemma set_create_jobs:
  "j \<in> set (create_jobs mfs ct r es)
     \<longleftrightarrow> (\<exists>e \<in> set es. \<exists>m f. job_source mfs e = Some (m, f)
            \<and> (\<exists>t \<in> set (element_samples e ct r). j = job_at m f e ct t))"
proof (induction es)
  case Nil
  then show ?case by simp
next
  case (Cons e es)
  then show ?case
    by (auto simp: job_source_def split: option.splits if_splits)
qed

lemma steps_from:
  "(\<exists>k::nat. t = x + real k / 24)
     \<longleftrightarrow> t = x \<or> (\<exists>k::nat. t = x + 1 / 24 + real k / 24)"
proof
  assume "\<exists>k::nat. t = x + real k / 24"
  then obtain k :: nat where k: "t = x + real k / 24" by blast
  show "t = x \<or> (\<exists>k::nat. t = x + 1 / 24 + real k / 24)"
  proof (cases k)
    case 0
    with k show ?thesis by simp
  next
    case (Suc n)
    with k have "t = x + 1 / 24 + real n / 24"
      by (simp add: field_simps)
    then show ?thesis by blast
  qed
next
  assume "t = x \<or> (\<exists>k::nat. t = x + 1 / 24 + real k / 24)"
  then show "\<exists>k::nat. t = x + real k / 24"
  proof
    assume "t = x"
    then have "t = x + real 0 / 24" by simp
    then show ?thesis by blast
  next
    assume "\<exists>k::nat. t = x + 1 / 24 + real k / 24"
    then obtain n :: nat where "t = x + 1 / 24 + real n / 24" by blast
    then have "t = x + real (Suc n) / 24"
      by (simp add: field_simps)
    then show ?thesis by blast
  qed
qed

lemma steps_ge: "t = x + real k / 24 \<Longrightarrow> x \<le> t"
proof -
  assume t: "t = x + real k / 24"
  have "0 \<le> real k / 24" by simp
  with t show ?thesis by linarith
qed

lemma set_sample_times:
  "t \<in> set (sample_times x y) \<longleftrightarrow> t < y \<and> (\<exists>k::nat. t = x + real k / 24)"
proof (induction x y rule: sample_times.induct)
  case (1 x y)
  show ?case
  proof (cases "x < y")
    case False
    have "\<not> (t < y \<and> (\<exists>k::nat. t = x + real k / 24))"
    proof
      assume "t < y \<and> (\<exists>k::nat. t = x + real k / 24)"
      then obtain k :: nat where "t < y" and "t = x + real k / 24" by blast
      with steps_ge [of t x k] have "x < y" by linarith
      with False show False by simp
    qed
    with False show ?thesis by (simp add: sample_times_stop)
  next
    case True
    have IH: "t \<in> set (sample_times (x + 1 / 24) y)
        \<longleftrightarrow> t < y \<and> (\<exists>k::nat. t = x + 1 / 24 + real k / 24)"
      using "1.IH" [OF True] by (simp only: frameInterval_def)
    have "t \<in> set (sample_times x y) \<longleftrightarrow> t = x \<or> t \<in> set (sample_times (x + 1 / 24) y)"
      by (simp add: sample_times_step [OF True])
    also have "\<dots> \<longleftrightarrow> t = x \<or> (t < y \<and> (\<exists>k::nat. t = x + 1 / 24 + real k / 24))"
      by (simp only: IH)
    also have "\<dots> \<longleftrightarrow> t < y \<and> (t = x \<or> (\<exists>k::nat. t = x + 1 / 24 + real k / 24))"
      using True by blast
    also have "\<dots> \<longleftrightarrow> t < y \<and> (\<exists>k::nat. t = x + real k / 24)"
      by (simp only: steps_from [of t x])
    finally show ?thesis .
  qed
qed

lemma set_element_samples:
  "t \<in> set (element_samples e ct r)
     \<longleftrightarrow> t < elementEnd e \<and> t < ct + r
         \<and> (\<exists>k::nat. t = max (startTime e) (ct - r) + real k / 24)"
  by (auto simp: element_samples_def set_sample_times preloadStart_def preloadEnd_def)

lemma sample_lower:
  "t = max (startTime e) (ct - r) + real k / 24 \<Longrightarrow> startTime e \<le> t \<and> ct - r \<le> t"
proof -
  assume t: "t = max (startTime e) (ct - r) + real k / 24"
  have "0 \<le> real k / 24" by simp
  with t show ?thesis by linarith
qed

lemma set_preload_plan:
  "j \<in> set (preload_plan s a)
     \<longleftrightarrow> (\<exists>e \<in> set (findRelevantVideoElements (currentTime a) (tracks a) (mediaFiles a)
                    (adjustedRadius s (playbackSpeed a))).
          \<exists>m f. job_source (mediaFiles a) e = Some (m, f)
            \<and> (\<exists>t \<in> set (element_samples e (currentTime a)
                    (adjustedRadius s (playbackSpeed a))).
                  j = job_at m f e (currentTime a) t))"
  by (simp add: preload_plan_def unsorted_plan_def Let_def adjustedRadius_def set_create_jobs)

text \<open>
  C4, as stated: every job's sample time lies in the search window from
  \<open>currentTime - 1\<close> to \<open>currentTime + r\<close>. It fails: the playhead is at 2 s, the radius is
  3 s, and the element is active from 23/24 s to 25/24 s, so it meets the search window
  [1, 5]. The sampling loop starts at the element's start, 23/24 s, which is before
  1 s; the job for that sample has target time 0.
\<close>

theorem sample_before_search_window:
  "adjustedRadius initial (playbackSpeed (one_clip 2 (23 / 24) (1 / 12))) = 3
   \<and> preload_plan initial (one_clip 2 (23 / 24) (1 / 12))
       = [job_v (1 / 24) 90, job_v 0 (1075 / 12)]
   \<and> \<not> job_sampled (one_clip 2 (23 / 24) (1 / 12)) 3 {2 - 1 .. 2 + 3} (job_v 0 (1075 / 12))"
proof -
  have "\<not> job_sampled (one_clip 2 (23 / 24) (1 / 12)) 3 {2 - 1 .. 2 + 3} (job_v 0 (1075 / 12))"
    by (auto simp: job_sampled_def one_clip_def one_track_def clip_def job_v_def)
  then show ?thesis
    by (simp add: eval_simps)
qed

text \<open>
  C4, amended: the sample times lie in the element's active window and in the sampling
  window from \<open>currentTime - r\<close> (inclusive) to \<open>currentTime + r\<close> (exclusive), where \<open>r\<close> is
  the effective radius; everything else is as the claim says.
\<close>

theorem plan_jobs_are_sampled:
  assumes "j \<in> set (preload_plan s a)"
  shows "job_sampled a (adjustedRadius s (playbackSpeed a))
           {currentTime a - adjustedRadius s (playbackSpeed a)
              ..< currentTime a + adjustedRadius s (playbackSpeed a)} j"
proof -
  define r where "r = adjustedRadius s (playbackSpeed a)"
  define ct where "ct = currentTime a"
  from assms obtain e m f t where
    e: "e \<in> set (findRelevantVideoElements ct (tracks a) (mediaFiles a) r)"
    and src: "job_source (mediaFiles a) e = Some (m, f)"
    and t: "t \<in> set (element_samples e ct r)"
    and j: "j = job_at m f e ct t"
    unfolding set_preload_plan r_def ct_def by blast
  from e have rel: "relevant_elem (ct - 1) (ct + r) (mediaFiles a) e"
    and cand: "e \<in> set (candidates (tracks a))"
    by (simp_all add: findRelevant_filter)
  from cand obtain tr where tr: "tr \<in> set (tracks a)" "\<not> muted tr" "tr_type tr = ''media''"
    "e \<in> set (elements tr)"
    unfolding set_candidates by blast
  from src have m: "find_media (mediaFiles a) (mediaId e) = Some m" "mf_type m = ''video''"
    "mf_file m = Some f"
    by (auto simp: job_source_def split: option.splits if_splits)
  from rel have el: "el_type e = ''media''" "\<not> hidden e" "startTime e < ct + r"
    "ct - 1 < elementEnd e"
    by (auto simp: relevant_elem_def)
  from t obtain k :: nat where k: "t = max (startTime e) (ct - r) + real k / 24"
    and up: "t < elementEnd e" "t < ct + r"
    unfolding set_element_samples by blast
  from sample_lower [OF k] have lo: "startTime e \<le> t" "ct - r \<le> t" by simp_all
  have jf: "job_mediaId j = mf_id m" "job_file j = f"
    "targetTime j = t - startTime e + trimStart e"
    by (simp_all add: j job_at_def)
  have "\<exists>m f t. tr_type tr = ''media'' \<and> \<not> muted tr \<and> el_type e = ''media'' \<and> \<not> hidden e
        \<and> find_media (mediaFiles a) (mediaId e) = Some m \<and> mf_type m = ''video''
        \<and> mf_file m = Some f
        \<and> startTime e < currentTime a + r \<and> currentTime a - 1 < elementEnd e
        \<and> startTime e \<le> t \<and> t < elementEnd e \<and> t \<in> {currentTime a - r ..< currentTime a + r}
        \<and> (\<exists>k::nat. t = max (startTime e) (currentTime a - r) + real k / 24)
        \<and> job_mediaId j = mf_id m \<and> job_file j = f
        \<and> targetTime j = t - startTime e + trimStart e"
    using tr m el k up lo jf unfolding ct_def by auto
  with tr(1,4) show ?thesis
    unfolding job_sampled_def r_def by blast
qed

theorem plan_jobs_are_sampled_witness:
  "job_v 0 (1075 / 12) \<in> set (preload_plan initial (one_clip 2 (23 / 24) (1 / 12)))
   \<and> job_sampled (one_clip 2 (23 / 24) (1 / 12)) 3 {2 - 3 ..< 2 + 3} (job_v 0 (1075 / 12))"
proof -
  have p: "preload_plan initial (one_clip 2 (23 / 24) (1 / 12))
       = [job_v (1 / 24) 90, job_v 0 (1075 / 12)]"
    by (simp add: eval_simps)
  have i: "job_v 0 (1075 / 12) \<in> set (preload_plan initial (one_clip 2 (23 / 24) (1 / 12)))"
    unfolding p by simp
  have r: "adjustedRadius initial (playbackSpeed (one_clip 2 (23 / 24) (1 / 12))) = 3"
    and c: "currentTime (one_clip 2 (23 / 24) (1 / 12)) = 2"
    by (simp_all add: eval_simps)
  from plan_jobs_are_sampled [OF i] i show ?thesis
    unfolding r c by simp
qed

lemma create_jobs_iterations:
  "create_jobs mfs ct r es = map (iteration_job ct) (sampled_iterations mfs ct r es)"
  by (induction es) (auto simp: iteration_job_def split: option.splits)

lemma set_sampled_iterations:
  "(m, f, e, t) \<in> set (sampled_iterations mfs ct r es)
     \<longleftrightarrow> e \<in> set es \<and> job_source mfs e = Some (m, f) \<and> t \<in> set (element_samples e ct r)"
  by (induction es) (auto simp: job_source_def split: option.splits if_splits)

lemma set_plan_iterations:
  "(m, f, e, t) \<in> set (plan_iterations s a)
     \<longleftrightarrow> e \<in> set (findRelevantVideoElements (currentTime a) (tracks a) (mediaFiles a)
                   (adjustedRadius s (playbackSpeed a)))
         \<and> job_source (mediaFiles a) e = Some (m, f)
         \<and> t \<in> set (element_samples e (currentTime a) (adjustedRadius s (playbackSpeed a)))"
  by (simp add: plan_iterations_def Let_def set_sampled_iterations)

lemma plan_from_iterations:
  "preload_plan s a
     = sort_key (\<lambda>j. - priority j) (map (iteration_job (currentTime a)) (plan_iterations s a))"
  by (simp add: preload_plan_def unsorted_plan_def plan_iterations_def Let_def
      adjustedRadius_def create_jobs_iterations)

lemma iteration_job_fields:
  "iteration_job ct (m, f, e, t)
     = \<lparr>job_mediaId = mf_id m, job_file = f, targetTime = t - startTime e + trimStart e,
        priority = max 0 (100 - 10 * \<bar>t - ct\<bar>)\<rparr>"
  by (simp add: iteration_job_def job_at_def Let_def mult.commute)

lemma plan_job_iteration:
  "j \<in> set (preload_plan s a)
     \<longleftrightarrow> (\<exists>it \<in> set (plan_iterations s a). j = iteration_job (currentTime a) it)"
  unfolding plan_from_iterations by auto

text \<open>
  C3. The plan is the sorted list of the jobs pushed by the iterations of the sampling
  loops, one job per iteration. Each iteration belongs to an element that
  \<^verbatim>\<open>findRelevantVideoElements\<close> returned for this timeline and that has a video file with
  a byte source, and to one of that element's sample times \<open>t\<close>; the job it pushes has
  priority \<open>max 0 (100 - 10 * \<bar>t - currentTime\<bar>)\<close>. So no job of the plan has a negative
  priority, and of two iterations of the plan the one whose sample time is nearer to
  the current time pushes a job whose priority is not smaller.
\<close>

theorem job_priority_formula:
  "preload_plan s a
     = sort_key (\<lambda>j. - priority j) (map (iteration_job (currentTime a)) (plan_iterations s a))
   \<and> ((m, f, e, t) \<in> set (plan_iterations s a) \<longrightarrow>
        e \<in> set (findRelevantVideoElements (currentTime a) (tracks a) (mediaFiles a)
                  (adjustedRadius s (playbackSpeed a)))
        \<and> job_source (mediaFiles a) e = Some (m, f)
        \<and> t \<in> set (element_samples e (currentTime a) (adjustedRadius s (playbackSpeed a)))
        \<and> iteration_job (currentTime a) (m, f, e, t) \<in> set (preload_plan s a)
        \<and> iteration_job (currentTime a) (m, f, e, t)
            = \<lparr>job_mediaId = mf_id m, job_file = f,
               targetTime = t - startTime e + trimStart e,
               priority = max 0 (100 - 10 * \<bar>t - currentTime a\<bar>)\<rparr>)
   \<and> (j \<in> set (preload_plan s a) \<longrightarrow>
        0 \<le> priority j
        \<and> (\<exists>it \<in> set (plan_iterations s a). j = iteration_job (currentTime a) it))
   \<and> ((m1, f1, e1, t1) \<in> set (plan_iterations s a)
        \<and> (m2, f2, e2, t2) \<in> set (plan_iterations s a)
        \<and> \<bar>t1 - currentTime a\<bar> < \<bar>t2 - currentTime a\<bar>
        \<longrightarrow> priority (iteration_job (currentTime a) (m2, f2, e2, t2))
              \<le> priority (iteration_job (currentTime a) (m1, f1, e1, t1)))"
proof -
  have tied: "e \<in> set (findRelevantVideoElements (currentTime a) (tracks a) (mediaFiles a)
                  (adjustedRadius s (playbackSpeed a)))
        \<and> job_source (mediaFiles a) e = Some (m, f)
        \<and> t \<in> set (element_samples e (currentTime a) (adjustedRadius s (playbackSpeed a)))
        \<and> iteration_job (currentTime a) (m, f, e, t) \<in> set (preload_plan s a)"
    if "(m, f, e, t) \<in> set (plan_iterations s a)"
    using that plan_job_iteration [of "iteration_job (currentTime a) (m, f, e, t)" s a]
    by (auto simp: set_plan_iterations)
  have nonneg: "0 \<le> priority j
        \<and> (\<exists>it \<in> set (plan_iterations s a). j = iteration_job (currentTime a) it)"
    if "j \<in> set (preload_plan s a)"
  proof -
    from that obtain it where it: "it \<in> set (plan_iterations s a)"
      and j: "j = iteration_job (currentTime a) it"
      unfolding plan_job_iteration by blast
    obtain m f e t where "it = (m, f, e, t)" by (cases it) auto
    with j have "priority j = max 0 (100 - 10 * \<bar>t - currentTime a\<bar>)"
      by (simp add: iteration_job_fields)
    then have "0 \<le> priority j" by simp
    with it j show ?thesis by blast
  qed
  have mono: "priority (iteration_job (currentTime a) (m2, f2, e2, t2))
              \<le> priority (iteration_job (currentTime a) (m1, f1, e1, t1))"
    if "\<bar>t1 - currentTime a\<bar> < \<bar>t2 - currentTime a\<bar>"
    using that by (simp add: iteration_job_fields max_def)
  show ?thesis
    using plan_from_iterations [of s a] tied nonneg mono
      iteration_job_fields [of "currentTime a" m f e t]
    by blast
qed

theorem job_priority_formula_witness:
  "plan_iterations initial (one_clip 0 0 (1 / 8))
     = [(video_v, ''v.mp4'', clip 0 (1 / 8), 0), (video_v, ''v.mp4'', clip 0 (1 / 8), 1 / 24),
        (video_v, ''v.mp4'', clip 0 (1 / 8), 1 / 12)]
   \<and> preload_plan initial (one_clip 0 0 (1 / 8))
       = [job_v 0 100, job_v (1 / 24) (1195 / 12), job_v (1 / 12) (595 / 6)]
   \<and> iteration_job 0 (video_v, ''v.mp4'', clip 0 (1 / 8), 1 / 24) = job_v (1 / 24) (1195 / 12)
   \<and> iteration_job 0 (video_v, ''v.mp4'', clip 0 (1 / 8), 1 / 12) = job_v (1 / 12) (595 / 6)
   \<and> \<bar>1 / 24 - 0\<bar> < \<bar>1 / 12 - (0::real)\<bar>
   \<and> priority (job_v (1 / 12) (595 / 6)) \<le> priority (job_v (1 / 24) (1195 / 12))
   \<and> 0 \<le> priority (job_v (1 / 12) (595 / 6))"
proof -
  have its: "plan_iterations initial (one_clip 0 0 (1 / 8))
     = [(video_v, ''v.mp4'', clip 0 (1 / 8), 0), (video_v, ''v.mp4'', clip 0 (1 / 8), 1 / 24),
        (video_v, ''v.mp4'', clip 0 (1 / 8), 1 / 12)]"
    by (simp add: plan_iterations_def eval_simps)
  have plan: "preload_plan initial (one_clip 0 0 (1 / 8))
       = [job_v 0 100, job_v (1 / 24) (1195 / 12), job_v (1 / 12) (595 / 6)]"
    by (simp add: eval_simps)
  have i1: "(video_v, ''v.mp4'', clip 0 (1 / 8), 1 / 24)
      \<in> set (plan_iterations initial (one_clip 0 0 (1 / 8)))"
    and i2: "(video_v, ''v.mp4'', clip 0 (1 / 8), 1 / 12)
      \<in> set (plan_iterations initial (one_clip 0 0 (1 / 8)))"
    unfolding its by simp_all
  have j: "job_v (1 / 12) (595 / 6) \<in> set (preload_plan initial (one_clip 0 0 (1 / 8)))"
    unfolding plan by simp
  have ct: "currentTime (one_clip 0 0 (1 / 8)) = 0" by (simp add: one_clip_def)
  have d: "\<bar>1 / 24 - 0\<bar> < \<bar>1 / 12 - (0::real)\<bar>" by simp
  have jobs: "iteration_job 0 (video_v, ''v.mp4'', clip 0 (1 / 8), 1 / 24)
        = job_v (1 / 24) (1195 / 12)"
    "iteration_job 0 (video_v, ''v.mp4'', clip 0 (1 / 8), 1 / 12) = job_v (1 / 12) (595 / 6)"
    by (simp_all add: iteration_job_fields job_v_def video_v_def clip_def)
  from job_priority_formula [where s = initial and a = "one_clip 0 0 (1 / 8)"
      and m = video_v and f = "''v.mp4''" and e = "clip 0 (1 / 8)" and t = "1 / 24"
      and j = "job_v (1 / 12) (595 / 6)"
      and ?m1.0 = video_v and ?f1.0 = "''v.mp4''" and ?e1.0 = "clip 0 (1 / 8)" and ?t1.0 = "1 / 24"
      and ?m2.0 = video_v and ?f2.0 = "''v.mp4''" and ?e2.0 = "clip 0 (1 / 8)" and ?t2.0 = "1 / 12"]
    i1 i2 j d
  have "priority (iteration_job 0 (video_v, ''v.mp4'', clip 0 (1 / 8), 1 / 12))
          \<le> priority (iteration_job 0 (video_v, ''v.mp4'', clip 0 (1 / 8), 1 / 24))
        \<and> 0 \<le> priority (job_v (1 / 12) (595 / 6))"
    unfolding ct by blast
  with its plan jobs d show ?thesis by simp
qed

section \<open>The effective radius and the size of a plan\<close>

lemma Suc_nat_pred: "0 < (c::int) \<Longrightarrow> Suc (nat (c - 1)) = nat c"
  by arith

lemma length_sample_times: "length (sample_times x y) = nat \<lceil>(y - x) * 24\<rceil>"
proof (induction x y rule: sample_times.induct)
  case (1 x y)
  show ?case
  proof (cases "x < y")
    case False
    then have "(y - x) * 24 \<le> 0" by simp
    then have "\<lceil>(y - x) * 24\<rceil> \<le> 0" by (simp add: ceiling_le_iff)
    with False show ?thesis by (simp add: sample_times_stop)
  next
    case True
    have eq: "(y - (x + frameInterval)) * 24 = (y - x) * 24 - 1"
      by (simp add: frameInterval_def algebra_simps)
    have pos: "0 < \<lceil>(y - x) * 24\<rceil>"
      using True by (simp add: ceiling_less_iff)
    have "length (sample_times x y) = Suc (nat \<lceil>(y - (x + frameInterval)) * 24\<rceil>)"
      using "1.IH" [OF True] by (simp add: sample_times_step [OF True] frameInterval_def)
    also have "\<dots> = Suc (nat (\<lceil>(y - x) * 24\<rceil> - 1))"
      unfolding eq by simp
    also have "\<dots> = nat \<lceil>(y - x) * 24\<rceil>"
      by (rule Suc_nat_pred [OF pos])
    finally show ?thesis .
  qed
qed

lemma length_sample_times_mono:
  "x \<le> x' \<Longrightarrow> y' \<le> y \<Longrightarrow> length (sample_times x' y') \<le> length (sample_times x y)"
proof -
  assume "x \<le> x'" and "y' \<le> y"
  then have "(y' - x') * 24 \<le> (y - x) * 24" by simp
  then have "\<lceil>(y' - x') * 24\<rceil> \<le> \<lceil>(y - x) * 24\<rceil>" by (rule ceiling_mono)
  then have "nat \<lceil>(y' - x') * 24\<rceil> \<le> nat \<lceil>(y - x) * 24\<rceil>" by (rule nat_mono)
  then show ?thesis by (simp only: length_sample_times)
qed

lemma length_element_samples_mono:
  "r' \<le> r \<Longrightarrow> length (element_samples e ct r') \<le> length (element_samples e ct r)"
  unfolding element_samples_def preloadStart_def preloadEnd_def
  by (rule length_sample_times_mono) (simp_all add: max_def min_def)

lemma relevant_elem_mono:
  "hi' \<le> hi \<Longrightarrow> relevant_elem lo hi' mfs e \<Longrightarrow> relevant_elem lo hi mfs e"
  by (simp add: relevant_elem_def)

lemma job_count_mono: "r' \<le> r \<Longrightarrow> job_count mfs ct r' e \<le> job_count mfs ct r e"
proof (cases "relevant_elem (ct - 1) (ct + r') mfs e \<and> job_source mfs e \<noteq> None")
  case False
  then have "job_count mfs ct r' e = 0" by (simp only: job_count_def if_False)
  then show ?thesis by simp
next
  case True
  assume le: "r' \<le> r"
  then have "relevant_elem (ct - 1) (ct + r) mfs e"
    using True relevant_elem_mono [of "ct + r'" "ct + r" "ct - 1" mfs e] by simp
  with True have "job_count mfs ct r' e = length (element_samples e ct r')"
    and "job_count mfs ct r e = length (element_samples e ct r)"
    by (simp_all only: job_count_def simp_thms if_True)
  with length_element_samples_mono [OF le, of e ct] show ?thesis by simp
qed

lemma length_create_jobs:
  "length (create_jobs mfs ct r es)
     = sum_list (map (\<lambda>e. if job_source mfs e \<noteq> None then length (element_samples e ct r)
                          else 0) es)"
  by (induction es) (auto simp: job_source_def split: option.splits)

lemma length_plan:
  "length (preload_plan s a)
     = sum_list (map (job_count (mediaFiles a) (currentTime a)
                        (adjustedRadius s (playbackSpeed a))) (candidates (tracks a)))"
proof -
  define r where "r = adjustedRadius s (playbackSpeed a)"
  have "length (preload_plan s a)
      = length (create_jobs (mediaFiles a) (currentTime a) r
          (filter (relevant_elem (currentTime a - 1) (currentTime a + r) (mediaFiles a))
             (candidates (tracks a))))"
    by (simp add: preload_plan_def unsorted_plan_def Let_def adjustedRadius_def r_def
        findRelevant_filter)
  also have "\<dots> = sum_list (map (job_count (mediaFiles a) (currentTime a) r)
      (candidates (tracks a)))"
    unfolding length_create_jobs sum_list_map_filter'
    by (rule arg_cong [where f = sum_list], rule map_cong) (simp_all add: job_count_def)
  finally show ?thesis unfolding r_def .
qed

lemma sum_list_strict:
  fixes f g :: "'a \<Rightarrow> nat"
  assumes "x \<in> set xs" and "f x < g x" and "\<And>y. y \<in> set xs \<Longrightarrow> f y \<le> g y"
  shows "sum_list (map f xs) < sum_list (map g xs)"
  using assms
proof (induction xs)
  case Nil
  then show ?case by simp
next
  case (Cons z zs)
  have le: "sum_list (map f zs) \<le> sum_list (map g zs)"
    by (rule sum_list_mono) (simp add: Cons.prems(3))
  have z: "f z \<le> g z" by (simp add: Cons.prems(3))
  show ?case
  proof (cases "x = z")
    case True
    with Cons.prems(2) le show ?thesis by simp
  next
    case False
    with Cons.prems(1) have "x \<in> set zs" by simp
    from Cons.IH [OF this Cons.prems(2)] Cons.prems(3)
    have "sum_list (map f zs) < sum_list (map g zs)" by simp
    with z show ?thesis by simp
  qed
qed

lemma plan_length_mono:
  assumes "adjustedRadius s v' \<le> adjustedRadius s v"
  shows "length (preload_plan s (a\<lparr>playbackSpeed := v'\<rparr>))
           \<le> length (preload_plan s (a\<lparr>playbackSpeed := v\<rparr>))"
proof -
  have "sum_list (map (job_count (mediaFiles a) (currentTime a) (adjustedRadius s v'))
          (candidates (tracks a)))
      \<le> sum_list (map (job_count (mediaFiles a) (currentTime a) (adjustedRadius s v))
          (candidates (tracks a)))"
    by (rule sum_list_mono) (rule job_count_mono [OF assms])
  then show ?thesis by (simp add: length_plan)
qed

lemma plan_length_strict_iff:
  assumes "adjustedRadius s v' \<le> adjustedRadius s v"
  shows "length (preload_plan s (a\<lparr>playbackSpeed := v'\<rparr>))
           < length (preload_plan s (a\<lparr>playbackSpeed := v\<rparr>))
     \<longleftrightarrow> (\<exists>e \<in> set (candidates (tracks a)).
            job_count (mediaFiles a) (currentTime a) (adjustedRadius s v') e
              < job_count (mediaFiles a) (currentTime a) (adjustedRadius s v) e)"
proof -
  define few where "few = job_count (mediaFiles a) (currentTime a) (adjustedRadius s v')"
  define many where "many = job_count (mediaFiles a) (currentTime a) (adjustedRadius s v)"
  have le: "few e \<le> many e" for e
    unfolding few_def many_def by (rule job_count_mono [OF assms])
  have len: "length (preload_plan s (a\<lparr>playbackSpeed := v'\<rparr>))
      = sum_list (map few (candidates (tracks a)))"
    "length (preload_plan s (a\<lparr>playbackSpeed := v\<rparr>))
      = sum_list (map many (candidates (tracks a)))"
    by (simp_all add: length_plan few_def many_def)
  show ?thesis
  proof
    assume lt: "length (preload_plan s (a\<lparr>playbackSpeed := v'\<rparr>))
           < length (preload_plan s (a\<lparr>playbackSpeed := v\<rparr>))"
    show "\<exists>e \<in> set (candidates (tracks a)).
            job_count (mediaFiles a) (currentTime a) (adjustedRadius s v') e
              < job_count (mediaFiles a) (currentTime a) (adjustedRadius s v) e"
    proof (rule ccontr)
      assume "\<not> (\<exists>e \<in> set (candidates (tracks a)).
            job_count (mediaFiles a) (currentTime a) (adjustedRadius s v') e
              < job_count (mediaFiles a) (currentTime a) (adjustedRadius s v) e)"
      then have "\<And>e. e \<in> set (candidates (tracks a)) \<Longrightarrow> few e = many e"
        using le unfolding few_def many_def by (meson le_neq_implies_less)
      then have "map few (candidates (tracks a)) = map many (candidates (tracks a))"
        by (simp add: map_eq_conv)
      with lt len show False by simp
    qed
  next
    assume "\<exists>e \<in> set (candidates (tracks a)).
            job_count (mediaFiles a) (currentTime a) (adjustedRadius s v') e
              < job_count (mediaFiles a) (currentTime a) (adjustedRadius s v) e"
    then obtain e where e: "e \<in> set (candidates (tracks a))" and lt: "few e < many e"
      unfolding few_def many_def by blast
    have "sum_list (map few (candidates (tracks a))) < sum_list (map many (candidates (tracks a)))"
      by (rule sum_list_strict [where f = few and g = many, OF e lt]) (rule le)
    with len show "length (preload_plan s (a\<lparr>playbackSpeed := v'\<rparr>))
           < length (preload_plan s (a\<lparr>playbackSpeed := v\<rparr>))"
      by simp
  qed
qed

lemma job_count_closed:
  "relevant_elem (ct - 1) (ct + r) mfs e \<Longrightarrow> job_source mfs e = Some src \<Longrightarrow>
   job_count mfs ct r e = nat \<lceil>(preloadEnd e ct r - preloadStart e ct r) * 24\<rceil>"
  by (simp add: job_count_def element_samples_def length_sample_times)

text \<open>
  C5, as stated: with a configured radius of 3, the plan at speed 2 has fewer jobs than
  the plan at speed 1. It fails when everything to sample lies within 1.5 s of the
  current time: for an element active from 10 s to 10.06 s and the playhead at 10 s,
  both plans hold two jobs, for the sample times 10 s and 10 s + 1/24 s.
\<close>

theorem same_plan_size_at_both_speeds:
  "adjustedRadius initial (Some 2) = 3 / 2
   \<and> length (preload_plan initial ((one_clip 10 10 (3 / 50))\<lparr>playbackSpeed := Some 2\<rparr>)) = 2
   \<and> length (preload_plan initial ((one_clip 10 10 (3 / 50))\<lparr>playbackSpeed := Some 1\<rparr>)) = 2
   \<and> \<not> length (preload_plan initial ((one_clip 10 10 (3 / 50))\<lparr>playbackSpeed := Some 2\<rparr>))
         < length (preload_plan initial ((one_clip 10 10 (3 / 50))\<lparr>playbackSpeed := Some 1\<rparr>))"
  by (simp add: eval_simps)

text \<open>
  C5, amended: the radius \<^verbatim>\<open>schedulePreload\<close> plans with is the configured radius divided
  by \<open>max 0.5 playbackSpeed\<close> (speed 1 when omitted); it is the radius of the element
  search and of the sampling, and the sample time of every iteration of the plan, hence
  of every job, is within that radius of the current time. With a configured radius of
  3 and speed 2 the radius is 1.5, and the plan has no more jobs than at speed 1; it
  has strictly fewer exactly when some element of an unskipped track contributes more
  jobs with the radius 3 than with the radius 1.5. For a speed of 0.5 or less, 0
  included, the radius is the configured radius divided by 0.5; the divisor is never 0.
\<close>

theorem effective_radius:
  "adjustedRadius s speed
     = preloadRadius s / max (1 / 2) (case speed of None \<Rightarrow> 1 | Some v \<Rightarrow> v)
   \<and> preload_plan s a
       = sort_key (\<lambda>j. - priority j)
           (create_jobs (mediaFiles a) (currentTime a) (adjustedRadius s (playbackSpeed a))
              (findRelevantVideoElements (currentTime a) (tracks a) (mediaFiles a)
                 (adjustedRadius s (playbackSpeed a))))
   \<and> ((m, f, e, t) \<in> set (plan_iterations s a) \<longrightarrow>
        \<bar>t - currentTime a\<bar> \<le> adjustedRadius s (playbackSpeed a))
   \<and> (j \<in> set (preload_plan s a) \<longrightarrow>
        (\<exists>(m, f, e, t) \<in> set (plan_iterations s a).
           e \<in> set (findRelevantVideoElements (currentTime a) (tracks a) (mediaFiles a)
                     (adjustedRadius s (playbackSpeed a)))
           \<and> job_source (mediaFiles a) e = Some (m, f)
           \<and> t \<in> set (element_samples e (currentTime a) (adjustedRadius s (playbackSpeed a)))
           \<and> j = job_at m f e (currentTime a) t
           \<and> \<bar>t - currentTime a\<bar> \<le> adjustedRadius s (playbackSpeed a)))
   \<and> (preloadRadius s = 3 \<longrightarrow>
        adjustedRadius s (Some 2) = 3 / 2
        \<and> length (preload_plan s (a\<lparr>playbackSpeed := Some 2\<rparr>))
            \<le> length (preload_plan s (a\<lparr>playbackSpeed := Some 1\<rparr>))
        \<and> (length (preload_plan s (a\<lparr>playbackSpeed := Some 2\<rparr>))
              < length (preload_plan s (a\<lparr>playbackSpeed := Some 1\<rparr>)))
            = (\<exists>e \<in> set (candidates (tracks a)).
                 job_count (mediaFiles a) (currentTime a) (3 / 2) e
                   < job_count (mediaFiles a) (currentTime a) 3 e))
   \<and> (v \<le> 1 / 2 \<longrightarrow> adjustedRadius s (Some v) = preloadRadius s / (1 / 2))
   \<and> adjustedRadius s (Some 0) = preloadRadius s / (1 / 2)"
proof -
  define r where "r = adjustedRadius s (playbackSpeed a)"
  have plan: "preload_plan s a
       = sort_key (\<lambda>j. - priority j)
           (create_jobs (mediaFiles a) (currentTime a) (adjustedRadius s (playbackSpeed a))
              (findRelevantVideoElements (currentTime a) (tracks a) (mediaFiles a)
                 (adjustedRadius s (playbackSpeed a))))"
    by (simp add: preload_plan_def unsorted_plan_def Let_def adjustedRadius_def)
  have near: "\<bar>t - currentTime a\<bar> \<le> r" if "t \<in> set (element_samples e (currentTime a) r)"
    for e t
  proof -
    from that obtain k :: nat where k: "t = max (startTime e) (currentTime a - r) + real k / 24"
      and up: "t < currentTime a + r"
      unfolding set_element_samples by blast
    from sample_lower [OF k] up show ?thesis by linarith
  qed
  have iter: "\<bar>t - currentTime a\<bar> \<le> r" if "(m, f, e, t) \<in> set (plan_iterations s a)"
    using that near [of t e] unfolding set_plan_iterations r_def by blast
  have job: "\<exists>(m, f, e, t) \<in> set (plan_iterations s a).
           e \<in> set (findRelevantVideoElements (currentTime a) (tracks a) (mediaFiles a) r)
           \<and> job_source (mediaFiles a) e = Some (m, f)
           \<and> t \<in> set (element_samples e (currentTime a) r)
           \<and> j = job_at m f e (currentTime a) t
           \<and> \<bar>t - currentTime a\<bar> \<le> r"
    if "j \<in> set (preload_plan s a)"
  proof -
    from that obtain it where it: "it \<in> set (plan_iterations s a)"
      and j: "j = iteration_job (currentTime a) it"
      unfolding plan_job_iteration by blast
    obtain m f e t where eq: "it = (m, f, e, t)" by (cases it) auto
    from it eq have mem: "(m, f, e, t) \<in> set (plan_iterations s a)" by simp
    then have tied: "e \<in> set (findRelevantVideoElements (currentTime a) (tracks a) (mediaFiles a) r)"
      "job_source (mediaFiles a) e = Some (m, f)"
      "t \<in> set (element_samples e (currentTime a) r)"
      unfolding set_plan_iterations r_def by simp_all
    have "j = job_at m f e (currentTime a) t"
      using j eq by (simp add: iteration_job_def)
    with tied near [OF tied(3)] mem show ?thesis by blast
  qed
  have three: "adjustedRadius s (Some 2) = 3 / 2
        \<and> length (preload_plan s (a\<lparr>playbackSpeed := Some 2\<rparr>))
            \<le> length (preload_plan s (a\<lparr>playbackSpeed := Some 1\<rparr>))
        \<and> (length (preload_plan s (a\<lparr>playbackSpeed := Some 2\<rparr>))
              < length (preload_plan s (a\<lparr>playbackSpeed := Some 1\<rparr>)))
            = (\<exists>e \<in> set (candidates (tracks a)).
                 job_count (mediaFiles a) (currentTime a) (3 / 2) e
                   < job_count (mediaFiles a) (currentTime a) 3 e)"
    if "preloadRadius s = 3"
  proof -
    have r2: "adjustedRadius s (Some 2) = 3 / 2" and r1: "adjustedRadius s (Some 1) = 3"
      using that by (simp_all add: adjustedRadius_def)
    then have le: "adjustedRadius s (Some 2) \<le> adjustedRadius s (Some 1)" by simp
    show ?thesis
      using r2 plan_length_mono [OF le, of a] plan_length_strict_iff [OF le, of a]
      unfolding r2 r1 by simp
  qed
  have slow: "adjustedRadius s (Some v) = preloadRadius s / (1 / 2)" if "v \<le> 1 / 2" for v
  proof -
    from that have "max (1 / 2) v = 1 / 2" by (rule max_absorb1)
    then show ?thesis by (simp only: adjustedRadius_def option.case)
  qed
  have zero: "adjustedRadius s (Some 0) = preloadRadius s / (1 / 2)"
    by (rule slow) simp
  have def: "adjustedRadius s speed
     = preloadRadius s / max (1 / 2) (case speed of None \<Rightarrow> 1 | Some v \<Rightarrow> v)"
    by (simp add: adjustedRadius_def)
  show ?thesis
    using def plan iter job three slow zero unfolding r_def by blast
qed

theorem effective_radius_witness:
  "(video_v, ''v.mp4'', clip 8 100, 8) \<in> set (plan_iterations initial (one_clip 10 8 100))
   \<and> job_at video_v ''v.mp4'' (clip 8 100) 10 8 \<in> set (preload_plan initial (one_clip 10 8 100))
   \<and> \<bar>8 - currentTime (one_clip 10 8 100)\<bar>
       \<le> adjustedRadius initial (playbackSpeed (one_clip 10 8 100))
   \<and> preloadRadius initial = 3
   \<and> adjustedRadius initial (Some 2) = 3 / 2
   \<and> clip 8 100 \<in> set (candidates (tracks (one_clip 10 8 100)))
   \<and> job_count (mediaFiles (one_clip 10 8 100)) (currentTime (one_clip 10 8 100)) (3 / 2)
         (clip 8 100)
       < job_count (mediaFiles (one_clip 10 8 100)) (currentTime (one_clip 10 8 100)) 3
           (clip 8 100)
   \<and> length (preload_plan initial ((one_clip 10 8 100)\<lparr>playbackSpeed := Some 2\<rparr>))
       < length (preload_plan initial ((one_clip 10 8 100)\<lparr>playbackSpeed := Some 1\<rparr>))
   \<and> (0::real) \<le> 1 / 2
   \<and> adjustedRadius initial (Some 0) = 6"
proof -
  have r: "preloadRadius initial = 3" by (simp add: initial_def)
  have rad: "adjustedRadius initial (playbackSpeed (one_clip 10 8 100)) = 3"
    by (simp add: adjustedRadius_def initial_def one_clip_def)
  have ct: "currentTime (one_clip 10 8 100) = 10"
    and mfs: "mediaFiles (one_clip 10 8 100) = [video_v]"
    and trs: "tracks (one_clip 10 8 100) = [one_track 8 100]"
    by (simp_all add: one_clip_def)
  have src: "job_source [video_v] (clip 8 100) = Some (video_v, ''v.mp4'')"
    by (simp add: job_source_def find_media_def video_v_def clip_def)
  have rel: "relevant_elem (10 - 1) (10 + 3) [video_v] (clip 8 100)"
    "relevant_elem (10 - 1) (10 + 3 / 2) [video_v] (clip 8 100)"
    by (simp_all add: relevant_elem_def find_media_def video_v_def clip_def elementEnd_def)
  have cand: "clip 8 100 \<in> set (candidates (tracks (one_clip 10 8 100)))"
    by (simp add: trs candidates_def one_track_def)
  have "(8::real) = max 8 (10 - 3) + real 0 / 24" by simp
  then have smp: "8 \<in> set (element_samples (clip 8 100) 10 3)"
    unfolding set_element_samples by (simp add: clip_def elementEnd_def)
  have it: "(video_v, ''v.mp4'', clip 8 100, 8)
      \<in> set (plan_iterations initial (one_clip 10 8 100))"
    unfolding set_plan_iterations rad ct mfs findRelevant_filter
    using cand rel(1) src smp by simp
  have j: "job_at video_v ''v.mp4'' (clip 8 100) 10 8
      \<in> set (preload_plan initial (one_clip 10 8 100))"
    unfolding plan_job_iteration ct using it
    by (force simp: iteration_job_def)
  have c3: "job_count [video_v] 10 3 (clip 8 100) = 120"
    using job_count_closed [OF rel(1) src]
    by (simp add: preloadStart_def preloadEnd_def clip_def elementEnd_def)
  have c2: "job_count [video_v] 10 (3 / 2) (clip 8 100) = 72"
    using job_count_closed [OF rel(2) src]
    by (simp add: preloadStart_def preloadEnd_def clip_def elementEnd_def)
  have more: "\<exists>e \<in> set (candidates (tracks (one_clip 10 8 100))).
      job_count (mediaFiles (one_clip 10 8 100)) (currentTime (one_clip 10 8 100)) (3 / 2) e
        < job_count (mediaFiles (one_clip 10 8 100)) (currentTime (one_clip 10 8 100)) 3 e"
    using cand c2 c3 unfolding ct mfs by force
  from effective_radius [where s = initial and a = "one_clip 10 8 100" and speed = "Some 2"
      and m = video_v and f = "''v.mp4''" and e = "clip 8 100" and t = 8
      and j = "job_at video_v ''v.mp4'' (clip 8 100) 10 8" and v = 0] r it j more
  have "\<bar>8 - currentTime (one_clip 10 8 100)\<bar>
          \<le> adjustedRadius initial (playbackSpeed (one_clip 10 8 100))
      \<and> adjustedRadius initial (Some 2) = 3 / 2
      \<and> length (preload_plan initial ((one_clip 10 8 100)\<lparr>playbackSpeed := Some 2\<rparr>))
          < length (preload_plan initial ((one_clip 10 8 100)\<lparr>playbackSpeed := Some 1\<rparr>))
      \<and> adjustedRadius initial (Some 0) = preloadRadius initial / (1 / 2)"
    by blast
  with r it j cand c2 c3 show ?thesis
    unfolding ct mfs by simp
qed

end
